theory Spec2Isabelle
  imports Main "HOL-Library.Word"
begin

unbundle bit_operations_syntax

section \<open>Constants of the shell\<close>

definition MAX_LINE :: nat where
  "MAX_LINE = 100"

definition MAX_ARGS :: nat where
  "MAX_ARGS = 10"

definition HISTORY_COUNT :: nat where
  "HISTORY_COUNT = 10"

section \<open>Tokenizer: \<^verbatim>\<open>parse_input\<close>\<close>

text \<open>
  A C string is modelled by the characters before its terminating NUL, a pointer variable
  (\<^verbatim>\<open>char *\<close>) by \<open>string option\<close> with \<open>None\<close> for \<^verbatim>\<open>NULL\<close>, and the
  array \<^verbatim>\<open>char *args[MAX_ARGS]\<close> by a list of \<open>MAX_ARGS\<close> pointers.  The array is a
  local variable without initialiser, so its starting content is a parameter.

  The delimiter set handed to \<^verbatim>\<open>strtok\<close> is \<^verbatim>\<open>" \t\n"\<close>.
\<close>

definition is_delim :: "char \<Rightarrow> bool" where
  "is_delim c \<longleftrightarrow> c = CHR '' '' \<or> c = CHR 0x09 \<or> c = CHR 0x0A"

text \<open>
  One call of \<^verbatim>\<open>strtok\<close> on the text its saved pointer designates: leading delimiters are
  skipped; at the end of the text the result is \<^verbatim>\<open>NULL\<close>; otherwise the token runs up to
  the next delimiter, which is overwritten by NUL, and the saved pointer moves behind it.
  The result is the token and the text left for the next call.
\<close>

definition strtok :: "string \<Rightarrow> string option \<times> string" where
  "strtok s =
     (let s' = dropWhile is_delim s in
      if s' = [] then (None, [])
      else (Some (takeWhile (\<lambda>c. \<not> is_delim c) s'),
            drop 1 (dropWhile (\<lambda>c. \<not> is_delim c) s')))"

text \<open>
  The loop \<^verbatim>\<open>while (token != NULL && i < MAX_ARGS - 1)\<close> with its variables: the current
  token, the text behind strtok's saved pointer, the index \<open>i\<close> and the array.
\<close>

function parse_loop ::
  "string option \<Rightarrow> string \<Rightarrow> nat \<Rightarrow> string option list \<Rightarrow> string option list \<times> nat" where
  "parse_loop token rest i args =
     (if token \<noteq> None \<and> i < MAX_ARGS - 1
      then parse_loop (fst (strtok rest)) (snd (strtok rest)) (i + 1) (args[i := token])
      else (args, i))"
  by pat_completeness auto
termination
  by (relation "measure (\<lambda>(token, rest, i, args). MAX_ARGS - 1 - i)") auto

definition parse_input :: "string \<Rightarrow> string option list \<Rightarrow> string option list \<times> nat" where
  "parse_input line args =
     (let (args', i) = parse_loop (fst (strtok line)) (snd (strtok line)) 0 args
      in (args'[i := None], i))"

text \<open>
  What \<^verbatim>\<open>execvp\<close> and the built-ins read from an argument array: the entries before the
  first \<^verbatim>\<open>NULL\<close>.
\<close>

definition argv :: "string option list \<Rightarrow> string list" where
  "argv args = map the (takeWhile (\<lambda>a. a \<noteq> None) args)"

subsection \<open>Splitting on runs of delimiters, as the specification words it\<close>

text \<open>
  \<open>pieces\<close> cuts a text at every single delimiter character; between two adjacent
  delimiters lies an empty field.  The tokens of a text are its non-empty pieces, which is
  splitting on runs of delimiters.
\<close>

fun pieces :: "string \<Rightarrow> string list" where
  "pieces [] = [[]]"
| "pieces (c # cs) =
     (if is_delim c then [] # pieces cs
      else (case pieces cs of [] \<Rightarrow> [[c]] | f # fs \<Rightarrow> (c # f) # fs))"

definition spec_tokens :: "string \<Rightarrow> string list" where
  "spec_tokens s = filter (\<lambda>f. f \<noteq> []) (pieces s)"

section \<open>Output formatting\<close>

text \<open>The conversion \<^verbatim>\<open>%d\<close> of \<^verbatim>\<open>printf\<close>: decimal digits, a minus sign first for a negative value.\<close>

definition digit :: "nat \<Rightarrow> char" where
  "digit d = char_of (48 + d)"

fun show_nat :: "nat \<Rightarrow> string" where
  "show_nat n = (if n < 10 then [digit n] else show_nat (n div 10) @ [digit (n mod 10)])"

declare show_nat.simps [simp del]

definition show_int :: "int \<Rightarrow> string" where
  "show_int i = (if i < 0 then CHR ''-'' # show_nat (nat (- i)) else show_nat (nat i))"

section \<open>System calls and processes\<close>

text \<open>
  The shell acts through system and library calls.  A run of one process is the list of the
  calls it makes, in order.  \<open>Fork r\<close> is a call of \<^verbatim>\<open>fork\<close> with the value \<open>r\<close> it returned
  in the process observed: negative when no child was created, \<open>0\<close> in the new child,
  the child's process id in the parent.  \<open>Execvp file args rest\<close> is a call of \<^verbatim>\<open>execvp\<close>
  with the program-name pointer, the argument vector up to its \<^verbatim>\<open>NULL\<close>, and the calls
  the process goes on to make if \<^verbatim>\<open>execvp\<close> returns, which it does only on failure.
  \<open>Waitpid p c\<close> is \<^verbatim>\<open>waitpid(p, s, 0)\<close>, with \<open>c\<close> telling whether \<open>s\<close> is a status
  variable (\<open>True\<close>) or \<^verbatim>\<open>NULL\<close>.
\<close>

datatype syscall =
    Fork int
  | Execvp "string option" "string list" "syscall list"
  | Waitpid int bool
  | Perror string
  | Exit int
  | Printf string
  | Pipe int int
  | Dup2 int int
  | Close int
  | Getenv string
  | Chdir "string option"
  | Getcwd
  | Setenv string string

definition STDIN_FILENO :: int where
  "STDIN_FILENO = 0"

definition STDOUT_FILENO :: int where
  "STDOUT_FILENO = 1"

definition EXIT_FAILURE :: int where
  "EXIT_FAILURE = 1"

text \<open>
  The status macros of \<^verbatim>\<open><sys/wait.h>\<close> on the \<^verbatim>\<open>int\<close> filled in by \<^verbatim>\<open>waitpid\<close>,
  as the C library of Linux defines them: the low seven bits hold the terminating signal
  (zero for a normal exit), bits 8 to 15 the exit code.
\<close>

definition WTERMSIG :: "32 word \<Rightarrow> 32 word" where
  "WTERMSIG status = status AND 0x7f"

definition WEXITSTATUS :: "32 word \<Rightarrow> 32 word" where
  "WEXITSTATUS status = drop_bit 8 (status AND 0xff00)"

definition WIFEXITED :: "32 word \<Rightarrow> bool" where
  "WIFEXITED status \<longleftrightarrow> WTERMSIG status = 0"

text \<open>
  How a child can end, and the status word Linux hands to \<^verbatim>\<open>waitpid\<close> for it: a normal
  exit with an 8-bit code, or death by a signal (numbers 1 to 126), with or without a
  core dump.
\<close>

datatype child_end = Exited nat | Signaled nat bool

definition wait_status :: "child_end \<Rightarrow> 32 word" where
  "wait_status t =
     (case t of
        Exited code \<Rightarrow> push_bit 8 (word_of_nat (code mod 256))
      | Signaled sig core \<Rightarrow> word_of_nat sig OR (if core then 0x80 else 0))"

definition valid_end :: "child_end \<Rightarrow> bool" where
  "valid_end t =
     (case t of Exited code \<Rightarrow> code < 256 | Signaled sig core \<Rightarrow> 1 \<le> sig \<and> sig \<le> 126)"

section \<open>Process Launcher: \<^verbatim>\<open>execute_command\<close>\<close>

definition bg_line :: "int \<Rightarrow> string" where
  "bg_line pid = ''[BG] Process ID: '' @ show_int pid @ [CHR 0x0A]"

definition execute_command :: "string option list \<Rightarrow> int \<Rightarrow> int \<Rightarrow> syscall list" where
  "execute_command args background pid =
     Fork pid #
     (if pid < 0 then [Perror ''fork failed'']
      else if pid = 0 then
        [Execvp (args ! 0) (argv args) [Perror ''exec error'', Exit EXIT_FAILURE]]
      else if background = 0 then [Waitpid pid False]
      else [Printf (bg_line pid)])"

section \<open>Pipe Executor: \<^verbatim>\<open>handle_pipe\<close>\<close>

text \<open>
  \<open>rd\<close> and \<open>wr\<close> are the contents of \<^verbatim>\<open>pipefd[0]\<close> and \<^verbatim>\<open>pipefd[1]\<close> after \<^verbatim>\<open>pipe\<close>,
  \<open>pid1\<close> and \<open>pid2\<close> the values of the two \<^verbatim>\<open>fork\<close> calls in the process observed, and
  \<open>args0\<close> the starting content of the array \<^verbatim>\<open>args\<close> that this process declares.
\<close>

definition handle_pipe ::
  "string \<Rightarrow> string \<Rightarrow> string option list \<Rightarrow> int \<Rightarrow> int \<Rightarrow> int \<Rightarrow> int \<Rightarrow> syscall list" where
  "handle_pipe left right args0 rd wr pid1 pid2 =
     Pipe rd wr # Fork pid1 #
     (if pid1 = 0 then
        (let args = fst (parse_input left args0) in
         [Dup2 wr STDOUT_FILENO, Close rd, Close wr,
          Execvp (args ! 0) (argv args) [Perror ''exec left'', Exit 1]])
      else
        Fork pid2 #
        (if pid2 = 0 then
           (let args = fst (parse_input right args0) in
            [Dup2 rd STDIN_FILENO, Close wr, Close rd,
             Execvp (args ! 0) (argv args) [Perror ''exec right'', Exit 1]])
         else [Close rd, Close wr, Waitpid pid1 False, Waitpid pid2 False]))"

section \<open>Conditional Executor: \<^verbatim>\<open>handle_and\<close>\<close>

text \<open>
  \<open>status\<close> is the content of the variable \<^verbatim>\<open>status\<close> when it is tested, after
  \<^verbatim>\<open>waitpid\<close> has returned; \<open>pid2\<close> is the value of the \<^verbatim>\<open>fork\<close> inside
  \<^verbatim>\<open>execute_command\<close>.  The one array \<^verbatim>\<open>args\<close> serves both commands.
\<close>

definition handle_and ::
  "string \<Rightarrow> string \<Rightarrow> string option list \<Rightarrow> int \<Rightarrow> 32 word \<Rightarrow> int \<Rightarrow> syscall list" where
  "handle_and left right args0 pid status pid2 =
     (let args = fst (parse_input left args0) in
      Fork pid #
      (if pid = 0 then [Execvp (args ! 0) (argv args) [Perror ''exec'', Exit 1]]
       else
         Waitpid pid True #
         (if WIFEXITED status \<and> WEXITSTATUS status = 0
          then execute_command (fst (parse_input right args)) 0 pid2
          else [])))"

section \<open>History: \<^verbatim>\<open>add_to_history\<close> and \<^verbatim>\<open>show_history\<close>\<close>

text \<open>
  The two globals.  C initialises them to all-\<^verbatim>\<open>NULL\<close> and \<open>0\<close>.  \<^verbatim>\<open>free\<close> and the copy
  made by \<^verbatim>\<open>strdup\<close> concern storage only: the slot receives the command's text.
\<close>

record shell_state =
  history :: "string option list"
  history_index :: nat

definition initial_state :: shell_state where
  "initial_state = \<lparr>history = replicate HISTORY_COUNT None, history_index = 0\<rparr>"

definition add_to_history :: "string \<Rightarrow> shell_state \<Rightarrow> shell_state" where
  "add_to_history cmd st =
     st\<lparr>history := (history st)[history_index st := Some cmd],
        history_index := (history_index st + 1) mod HISTORY_COUNT\<rparr>"

definition history_line :: "nat \<Rightarrow> string \<Rightarrow> string" where
  "history_line n cmd = ''['' @ show_int (int n) @ ''] '' @ cmd @ [CHR 0x0A]"

text \<open>
  The \<^verbatim>\<open>do ... while\<close> loop of \<^verbatim>\<open>show_history\<close>: one unfolding is one run of the body
  followed by the test.  \<open>out\<close> collects the lines printed so far.  Nothing bounds the
  loop for an index outside the array, so it is a partial function.
\<close>

partial_function (option) show_loop ::
  "string option list \<Rightarrow> nat \<Rightarrow> nat \<Rightarrow> nat \<Rightarrow> string list \<Rightarrow> string list option" where
  "show_loop hist start idx count out =
     (let out' = (case hist ! idx of Some cmd \<Rightarrow> out @ [history_line (count + 1) cmd] | None \<Rightarrow> out);
          count' = (case hist ! idx of Some cmd \<Rightarrow> count + 1 | None \<Rightarrow> count);
          idx' = (idx + 1) mod HISTORY_COUNT
      in if idx' \<noteq> start \<and> count' < HISTORY_COUNT
         then show_loop hist start idx' count' out'
         else Some out')"

declare show_loop.simps [code]

definition show_history :: "shell_state \<Rightarrow> string list option" where
  "show_history st = show_loop (history st) (history_index st) (history_index st) 0 []"

text \<open>The state the globals are in after the given lines were recorded, one after another.\<close>

definition record_all :: "string list \<Rightarrow> shell_state \<Rightarrow> shell_state" where
  "record_all cmds st = foldl (\<lambda>s c. add_to_history c s) st cmds"

section \<open>Built-ins: \<^verbatim>\<open>run_builtin_cd\<close> and \<^verbatim>\<open>run_builtin_pwd\<close>\<close>

text \<open>
  \<open>home\<close> is the answer of \<^verbatim>\<open>getenv("HOME")\<close>, \<open>rc\<close> that of \<^verbatim>\<open>chdir\<close>, \<open>cwd\<close> that of
  \<^verbatim>\<open>getcwd\<close> (\<open>None\<close> for \<^verbatim>\<open>NULL\<close>).
\<close>

definition run_builtin_cd ::
  "string option list \<Rightarrow> string option \<Rightarrow> int \<Rightarrow> string option \<Rightarrow> syscall list" where
  "run_builtin_cd args home rc cwd =
     (let target = args ! 1 in
      (if target = None then [Getenv ''HOME''] else []) @
      Chdir (if target = None then home else target) #
      (if rc \<noteq> 0 then [Perror ''cd error'']
       else Getcwd # (case cwd of Some d \<Rightarrow> [Setenv ''PWD'' d] | None \<Rightarrow> [])))"

definition run_builtin_pwd :: "string option \<Rightarrow> syscall list" where
  "run_builtin_pwd cwd =
     Getcwd # (case cwd of Some d \<Rightarrow> [Printf (d @ [CHR 0x0A])] | None \<Rightarrow> [Perror ''pwd error''])"

section \<open>Dispatcher: the body of the loop in \<^verbatim>\<open>main\<close>\<close>

text \<open>The C string functions used on the line, with a pointer result given as an index.\<close>

fun strstr :: "string \<Rightarrow> string \<Rightarrow> nat option" where
  "strstr [] needle = (if needle = [] then Some 0 else None)"
| "strstr (c # cs) needle =
     (if take (length needle) (c # cs) = needle then Some 0
      else map_option Suc (strstr cs needle))"

fun strchr :: "string \<Rightarrow> char \<Rightarrow> nat option" where
  "strchr [] ch = None"
| "strchr (c # cs) ch = (if c = ch then Some 0 else map_option Suc (strchr cs ch))"

definition strcspn :: "string \<Rightarrow> string \<Rightarrow> nat" where
  "strcspn s reject = length (takeWhile (\<lambda>c. c \<notin> set reject) s)"

text \<open>
  What the environment answers during one pass through the loop body: the values of the
  \<^verbatim>\<open>fork\<close> calls in the process observed, the status word, the two pipe descriptors,
  the answers to the built-ins' calls, and the content the array \<^verbatim>\<open>args\<close> starts with.
\<close>

record answers =
  fork1 :: int
  fork2 :: int
  wstatus :: "32 word"
  pipe_rd :: int
  pipe_wr :: int
  env_home :: "string option"
  chdir_rc :: int
  getcwd_res :: "string option"
  stack_args :: "string option list"

text \<open>
  How the pass ends: with \<^verbatim>\<open>continue\<close> or the end of the body, with \<^verbatim>\<open>break\<close>, or not at
  all in this program, for a child that has called \<^verbatim>\<open>execvp\<close> (the new program takes over,
  or \<^verbatim>\<open>exit\<close> follows).
\<close>

datatype flow = Continue | Break | Gone

primrec is_execvp :: "syscall \<Rightarrow> bool" where
  "is_execvp (Fork r) = False"
| "is_execvp (Execvp f a k) = True"
| "is_execvp (Waitpid p c) = False"
| "is_execvp (Perror m) = False"
| "is_execvp (Exit n) = False"
| "is_execvp (Printf s) = False"
| "is_execvp (Pipe r w) = False"
| "is_execvp (Dup2 a b) = False"
| "is_execvp (Close d) = False"
| "is_execvp (Getenv n) = False"
| "is_execvp (Chdir t) = False"
| "is_execvp Getcwd = False"
| "is_execvp (Setenv n v) = False"

definition after :: "syscall list \<Rightarrow> flow" where
  "after t = (if list_ex is_execvp t then Gone else Continue)"

text \<open>
  One pass through the loop body, from the line that \<^verbatim>\<open>fgets\<close> delivered.  The result is
  the new content of the globals, the calls made, and how the pass ends; \<open>None\<close> when the
  pass does not end because \<^verbatim>\<open>show_history\<close> does not return.
\<close>

definition main_iteration ::
  "answers \<Rightarrow> shell_state \<Rightarrow> string \<Rightarrow> (shell_state \<times> syscall list \<times> flow) option" where
  "main_iteration os st line =
     (if (case line of [] \<Rightarrow> False | c # cs \<Rightarrow> c = CHR 0x0A) then Some (st, [], Continue)
      else
        let st' = add_to_history line st in
        case strstr line ''&&'' of
          Some i \<Rightarrow>
            (let t = handle_and (take i line) (drop (i + 2) line) (stack_args os)
                       (fork1 os) (wstatus os) (fork2 os)
             in Some (st', t, after t))
        | None \<Rightarrow>
            (case strchr line (CHR ''|'') of
               Some j \<Rightarrow>
                 (let t = handle_pipe (take j line) (drop (j + 1) line) (stack_args os)
                            (pipe_rd os) (pipe_wr os) (fork1 os) (fork2 os)
                  in Some (st', t, after t))
             | None \<Rightarrow>
                 (let background = (if strchr line (CHR ''&'') \<noteq> None then 1 else 0 :: int);
                      line' = (if strchr line (CHR ''&'') \<noteq> None
                               then take (strcspn line ''&'') line else line);
                      args = fst (parse_input line' (stack_args os))
                  in if args ! 0 = None then Some (st', [], Continue)
                     else if args ! 0 = Some ''cd'' then
                       Some (st', run_builtin_cd args (env_home os) (chdir_rc os) (getcwd_res os),
                             Continue)
                     else if args ! 0 = Some ''pwd'' then
                       Some (st', run_builtin_pwd (getcwd_res os), Continue)
                     else if args ! 0 = Some ''exit'' then Some (st', [], Break)
                     else if args ! 0 = Some ''history'' then
                       map_option (\<lambda>out. (st', map Printf out, Continue)) (show_history st')
                     else
                       (let t = execute_command args background (fork1 os)
                        in Some (st', t, after t)))))"

section \<open>Vocabulary of the statements\<close>

text \<open>The calls of one kind in a run, in order, each given by its argument.\<close>

definition forks :: "syscall list \<Rightarrow> int list" where
  "forks t = [r. Fork r \<leftarrow> t]"

definition waits :: "syscall list \<Rightarrow> int list" where
  "waits t = [p. Waitpid p c \<leftarrow> t]"

definition closes :: "syscall list \<Rightarrow> int list" where
  "closes t = [d. Close d \<leftarrow> t]"

definition prints :: "syscall list \<Rightarrow> string list" where
  "prints t = [s. Printf s \<leftarrow> t]"

definition reports :: "syscall list \<Rightarrow> string list" where
  "reports t = [m. Perror m \<leftarrow> t]"

definition is_fork :: "syscall \<Rightarrow> bool" where
  "is_fork c = (case c of Fork r \<Rightarrow> True | _ \<Rightarrow> False)"

definition is_close :: "syscall \<Rightarrow> bool" where
  "is_close c = (case c of Close d \<Rightarrow> True | _ \<Rightarrow> False)"

definition is_wait :: "syscall \<Rightarrow> bool" where
  "is_wait c = (case c of Waitpid p s \<Rightarrow> True | _ \<Rightarrow> False)"

text \<open>
  \<open>all_before P Q t\<close>: in the run \<open>t\<close> every call of kind \<open>P\<close> comes before every call
  of kind \<open>Q\<close>, that is, from the first \<open>Q\<close> call on there is no \<open>P\<close> call.
\<close>

definition all_before :: "(syscall \<Rightarrow> bool) \<Rightarrow> (syscall \<Rightarrow> bool) \<Rightarrow> syscall list \<Rightarrow> bool" where
  "all_before P Q t \<longleftrightarrow> \<not> list_ex P (dropWhile (\<lambda>c. \<not> Q c) t)"

text \<open>The globals as the program keeps them: ten slots and an index among them.\<close>

definition state_ok :: "shell_state \<Rightarrow> bool" where
  "state_ok st \<longleftrightarrow> length (history st) = HISTORY_COUNT \<and> history_index st < HISTORY_COUNT"

text \<open>The most recent \<open>HISTORY_COUNT\<close> of the recorded lines, oldest first.\<close>

definition window :: "string list \<Rightarrow> string list" where
  "window cmds = drop (length cmds - HISTORY_COUNT) cmds"

text \<open>The listing of some lines, numbered upwards from \<open>n + 1\<close>.\<close>

fun numbered :: "nat \<Rightarrow> string list \<Rightarrow> string list" where
  "numbered n [] = []"
| "numbered n (c # cs) = history_line (n + 1) c # numbered (n + 1) cs"

text \<open>The non-\<^verbatim>\<open>NULL\<close> entries of an array, in order.\<close>

definition somes :: "'a option list \<Rightarrow> 'a list" where
  "somes xs = map the (filter (\<lambda>x. x \<noteq> None) xs)"

text \<open>The names that the loop body compares the first token with.\<close>

definition builtin_names :: "string list" where
  "builtin_names = [''cd'', ''pwd'', ''exit'', ''history'']"

text \<open>The part of a line before its first \<^verbatim>\<open>&\<close>; the whole line when it has none.\<close>

definition before_amp :: "string \<Rightarrow> string" where
  "before_amp line = takeWhile (\<lambda>c. c \<noteq> CHR ''&'') line"

text \<open>
  The built-in named by the first entry of the argument array, as the loop body runs it:
  the calls it makes and how the pass ends; \<open>None\<close> when the first entry names no
  built-in, or when \<^verbatim>\<open>show_history\<close> does not return.
\<close>

definition run_builtin ::
  "answers \<Rightarrow> shell_state \<Rightarrow> string option list \<Rightarrow> (syscall list \<times> flow) option" where
  "run_builtin os st args =
     (if args ! 0 = Some ''cd'' then
        Some (run_builtin_cd args (env_home os) (chdir_rc os) (getcwd_res os), Continue)
      else if args ! 0 = Some ''pwd'' then Some (run_builtin_pwd (getcwd_res os), Continue)
      else if args ! 0 = Some ''exit'' then Some ([], Break)
      else if args ! 0 = Some ''history'' then
        map_option (\<lambda>out. (map Printf out, Continue)) (show_history st)
      else None)"

text \<open>
  The tokens of the command on a line, and the argument array the loop body builds from
  it: both come from the part of the line before its first \<^verbatim>\<open>&\<close>.
\<close>

definition cmd_tokens :: "string \<Rightarrow> string list" where
  "cmd_tokens line = take (MAX_ARGS - 1) (spec_tokens (before_amp line))"

definition cmd_args :: "answers \<Rightarrow> string \<Rightarrow> string option list" where
  "cmd_args os line = fst (parse_input (before_amp line) (stack_args os))"

text \<open>An array content and an environment to run the definitions on.\<close>

definition junk_args :: "string option list" where
  "junk_args = replicate 10 (Some ''old'')"

definition sample_answers :: answers where
  "sample_answers =
     \<lparr>fork1 = 41, fork2 = 42, wstatus = 0, pipe_rd = 3, pipe_wr = 4,
      env_home = Some ''/root'', chdir_rc = 0, getcwd_res = Some ''/tmp'',
      stack_args = junk_args\<rparr>"

section \<open>Properties of the tokenizer\<close>

declare parse_loop.simps [simp del]

lemma pieces_nonempty: "pieces cs \<noteq> []"
  by (induction cs) (auto split: list.splits)

lemma pieces_Cons [simp]:
  "\<not> is_delim c \<Longrightarrow> pieces (c # cs) = (c # hd (pieces cs)) # tl (pieces cs)"
  using pieces_nonempty [of cs] by (cases "pieces cs") simp_all

lemma pieces_delim [simp]: "is_delim c \<Longrightarrow> pieces (c # cs) = [] # pieces cs"
  by simp

declare pieces.simps(2) [simp del]

lemma hd_pieces: "hd (pieces cs) = takeWhile (\<lambda>c. \<not> is_delim c) cs"
  by (induction cs) auto

lemma tl_pieces:
  "filter (\<lambda>f. f \<noteq> []) (tl (pieces cs)) = spec_tokens (drop 1 (dropWhile (\<lambda>c. \<not> is_delim c) cs))"
  by (induction cs) (auto simp: spec_tokens_def)

lemma strtok_None: "fst (strtok s) = None \<Longrightarrow> spec_tokens s = []"
  by (induction s) (auto simp: strtok_def spec_tokens_def Let_def split: if_splits)

lemma strtok_Some:
  "fst (strtok s) = Some t \<Longrightarrow> spec_tokens s = t # spec_tokens (snd (strtok s))"
proof (induction s)
  case Nil
  then show ?case by (simp add: strtok_def)
next
  case (Cons c cs)
  show ?case
  proof (cases "is_delim c")
    case True
    then have "strtok (c # cs) = strtok cs" by (simp add: strtok_def)
    moreover from True have "spec_tokens (c # cs) = spec_tokens cs" by (simp add: spec_tokens_def)
    ultimately show ?thesis using Cons by simp
  next
    case False
    then have t: "t = c # takeWhile (\<lambda>c. \<not> is_delim c) cs"
      and r: "snd (strtok (c # cs)) = drop 1 (dropWhile (\<lambda>c. \<not> is_delim c) cs)"
      using Cons.prems by (simp_all add: strtok_def)
    from False have "spec_tokens (c # cs) = (c # hd (pieces cs)) # filter (\<lambda>f. f \<noteq> []) (tl (pieces cs))"
      by (simp add: spec_tokens_def)
    then show ?thesis by (simp add: t r hd_pieces tl_pieces)
  qed
qed

lemma parse_loop_spec:
  "i \<le> MAX_ARGS - 1 \<Longrightarrow> length args = MAX_ARGS \<Longrightarrow>
   token = fst (strtok s) \<Longrightarrow> rest = snd (strtok s) \<Longrightarrow>
   parse_loop token rest i args = (args', n) \<Longrightarrow>
     n = i + length (take (MAX_ARGS - 1 - i) (spec_tokens s)) \<and>
     length args' = MAX_ARGS \<and>
     take n args' = take i args @ map Some (take (MAX_ARGS - 1 - i) (spec_tokens s))"
proof (induction token rest i args arbitrary: s rule: parse_loop.induct)
  case (1 token rest i args)
  show ?case
  proof (cases "token \<noteq> None \<and> i < MAX_ARGS - 1")
    case True
    then obtain t where t: "token = Some t" by auto
    from t "1.prems" have st: "spec_tokens s = t # spec_tokens rest"
      using strtok_Some by metis
    from True "1.prems"(5) have rec:
      "parse_loop (fst (strtok rest)) (snd (strtok rest)) (i + 1) (args[i := token]) = (args', n)"
      by (simp del: parse_loop.simps add: parse_loop.simps [of token rest i args])
    have ih: "n = (i + 1) + length (take (MAX_ARGS - 1 - (i + 1)) (spec_tokens rest)) \<and>
      length args' = MAX_ARGS \<and>
      take n args' = take (i + 1) (args[i := token]) @ map Some (take (MAX_ARGS - 1 - (i + 1)) (spec_tokens rest))"
      by (rule "1.IH" [OF True _ _ refl refl rec]) (use True "1.prems" in auto)
    from True "1.prems" have il: "i < length args" by (simp add: MAX_ARGS_def)
    have tk: "take (i + 1) (args[i := token]) = take i args @ [Some t]"
      using il t by (simp add: take_Suc_conv_app_nth)
    define k where "k = MAX_ARGS - 1 - (i + 1)"
    have m: "MAX_ARGS - 1 - i = Suc k" unfolding k_def using True by arith
    have tks: "take (MAX_ARGS - 1 - i) (spec_tokens s) = t # take k (spec_tokens rest)"
      by (simp only: m st take_Suc_Cons)
    from ih have ih': "n = (i + 1) + length (take k (spec_tokens rest)) \<and>
      length args' = MAX_ARGS \<and>
      take n args' = take (i + 1) (args[i := token]) @ map Some (take k (spec_tokens rest))"
      unfolding k_def .
    show ?thesis unfolding tks using ih' tk by auto
  next
    case False
    with "1.prems"(5) have eq: "args' = args" "n = i"
      using parse_loop.simps [of token rest i args] by (auto simp del: parse_loop.simps)
    show ?thesis
    proof (cases "token = None")
      case True
      with "1.prems" have "spec_tokens s = []" using strtok_None by metis
      then show ?thesis using eq "1.prems" by simp
    next
      case False
      with \<open>\<not> (token \<noteq> None \<and> i < MAX_ARGS - 1)\<close> "1.prems"(1) have "i = MAX_ARGS - 1" by simp
      then show ?thesis using eq "1.prems" by simp
    qed
  qed
qed

lemma parse_input_tokens:
  assumes "length args = MAX_ARGS"
  shows "snd (parse_input line args) = length (take (MAX_ARGS - 1) (spec_tokens line))"
    and "length (fst (parse_input line args)) = MAX_ARGS"
    and "take (snd (parse_input line args)) (fst (parse_input line args))
           = map Some (take (MAX_ARGS - 1) (spec_tokens line))"
    and "fst (parse_input line args) ! snd (parse_input line args) = None"
proof -
  obtain args' n where pl: "parse_loop (fst (strtok line)) (snd (strtok line)) 0 args = (args', n)"
    by (cases "parse_loop (fst (strtok line)) (snd (strtok line)) 0 args")
  have sp: "n = 0 + length (take (MAX_ARGS - 1 - 0) (spec_tokens line)) \<and>
     length args' = MAX_ARGS \<and>
     take n args' = take 0 args @ map Some (take (MAX_ARGS - 1 - 0) (spec_tokens line))"
    by (rule parse_loop_spec [OF _ assms refl refl pl]) simp
  have pi: "parse_input line args = (args'[n := None], n)"
    by (simp add: parse_input_def pl)
  from sp have n: "n = length (take (MAX_ARGS - 1) (spec_tokens line))"
    and len: "length args' = MAX_ARGS"
    and tk: "take n args' = map Some (take (MAX_ARGS - 1) (spec_tokens line))"
    by auto
  from n len have nb: "n < length args'" by (simp add: MAX_ARGS_def)
  show "snd (parse_input line args) = length (take (MAX_ARGS - 1) (spec_tokens line))"
    by (simp only: pi snd_conv n [symmetric])
  show "length (fst (parse_input line args)) = MAX_ARGS"
    by (simp add: pi len)
  show "take (snd (parse_input line args)) (fst (parse_input line args))
           = map Some (take (MAX_ARGS - 1) (spec_tokens line))"
    by (simp add: pi tk)
  show "fst (parse_input line args) ! snd (parse_input line args) = None"
    using nb by (simp add: pi)
qed

lemma spec_tokens_delims: "spec_tokens s = [] \<longleftrightarrow> (\<forall>c\<in>set s. is_delim c)"
proof (induction s)
  case Nil
  show ?case by (simp add: spec_tokens_def)
next
  case (Cons a s)
  then show ?case by (cases "is_delim a") (auto simp: spec_tokens_def)
qed

lemma takeWhile_Some_None:
  "takeWhile (\<lambda>a. a \<noteq> None) (map Some ts @ None # r) = map Some ts"
  by (induction ts) simp_all

lemma argv_parse_input:
  assumes "length args = MAX_ARGS"
  shows "argv (fst (parse_input line args)) = take (MAX_ARGS - 1) (spec_tokens line)"
proof -
  let ?a = "fst (parse_input line args)" and ?n = "snd (parse_input line args)"
  let ?T = "take (MAX_ARGS - 1) (spec_tokens line)"
  note p = parse_input_tokens [OF assms, of line]
  have n: "?n < length ?a" using p(1,2) by (simp add: MAX_ARGS_def)
  have e: "?a = take ?n ?a @ ?a ! ?n # drop (Suc ?n) ?a"
    by (rule id_take_nth_drop [OF n])
  have "takeWhile (\<lambda>a. a \<noteq> None) ?a
      = takeWhile (\<lambda>a. a \<noteq> None) (take ?n ?a @ ?a ! ?n # drop (Suc ?n) ?a)"
    by (rule arg_cong [OF e])
  also have "\<dots> = takeWhile (\<lambda>a. a \<noteq> None) (map Some ?T @ None # drop (Suc ?n) ?a)"
    by (simp only: p(3) p(4))
  also have "\<dots> = map Some ?T"
    by (rule takeWhile_Some_None)
  finally have "argv ?a = map the (map Some ?T)"
    by (simp only: argv_def)
  then show ?thesis by (simp add: comp_def)
qed

lemma parse_input_first:
  assumes "length args = MAX_ARGS"
  shows "fst (parse_input line args) ! 0
     = (case take (MAX_ARGS - 1) (spec_tokens line) of [] \<Rightarrow> None | t # ts \<Rightarrow> Some t)"
proof -
  let ?a = "fst (parse_input line args)" and ?n = "snd (parse_input line args)"
  let ?T = "take (MAX_ARGS - 1) (spec_tokens line)"
  note p = parse_input_tokens [OF assms, of line]
  show ?thesis
  proof (cases ?T)
    case Nil
    have "?n = length ?T" by (rule p(1))
    then have "?n = 0" by (simp only: Nil list.size)
    then show ?thesis using p(4) by (simp only: Nil list.case)
  next
    case (Cons t ts)
    have "?n = length ?T" by (rule p(1))
    then have "0 < ?n" by (simp only: Cons) simp
    then have "?a ! 0 = take ?n ?a ! 0" by simp
    also have "\<dots> = Some t" by (simp only: p(3) Cons list.map nth_Cons_0)
    finally show ?thesis by (simp only: Cons list.case)
  qed
qed

lemma parse_input_second:
  assumes "length args = MAX_ARGS"
    and "take (MAX_ARGS - 1) (spec_tokens line) \<noteq> []"
  shows "fst (parse_input line args) ! 1
     = (if 2 \<le> length (take (MAX_ARGS - 1) (spec_tokens line))
        then Some (take (MAX_ARGS - 1) (spec_tokens line) ! 1) else None)"
proof -
  let ?a = "fst (parse_input line args)" and ?n = "snd (parse_input line args)"
  let ?T = "take (MAX_ARGS - 1) (spec_tokens line)"
  note p = parse_input_tokens [OF assms(1), of line]
  have n: "?n = length ?T" by (rule p(1))
  have pos: "1 \<le> length ?T" using assms(2) by (cases ?T) simp_all
  show ?thesis
  proof (cases "2 \<le> length ?T")
    case True
    then have l: "1 < ?n" using n by linarith
    then have "?a ! 1 = take ?n ?a ! 1" by simp
    also have "\<dots> = map Some ?T ! 1" by (simp only: p(3))
    also have "\<dots> = Some (?T ! 1)" using True by (intro nth_map) linarith
    finally show ?thesis using True by (simp only: if_True)
  next
    case False
    with pos have "length ?T = 1" by linarith
    then have "?n = 1" by (simp only: n)
    then have "?a ! 1 = None" using p(4) by simp
    then show ?thesis using False by (simp only: if_False)
  qed
qed

text \<open>
  Claim C6.  For every line and every starting content of the argument array,
  \<^verbatim>\<open>parse_input\<close> stores the first \<open>MAX_ARGS - 1\<close> (nine) tokens of the line, in order,
  and returns their number; tokens beyond the ninth are dropped.  The tokens are the
  non-empty pieces between the delimiters space, tab and newline.  A line made of
  delimiters only (the empty line among them) gives zero tokens.  The slot after the last
  token lies inside the array and holds \<^verbatim>\<open>NULL\<close>, so a reader of the array sees exactly
  these tokens.
\<close>

theorem parse_input_bounded_tokens:
  assumes "length args = MAX_ARGS"
  shows "snd (parse_input line args) \<le> MAX_ARGS - 1 \<and>
         snd (parse_input line args) = min (length (spec_tokens line)) (MAX_ARGS - 1) \<and>
         take (snd (parse_input line args)) (fst (parse_input line args))
           = map Some (take (MAX_ARGS - 1) (spec_tokens line)) \<and>
         ((\<forall>c\<in>set line. is_delim c) \<longrightarrow> snd (parse_input line args) = 0) \<and>
         snd (parse_input line args) < length (fst (parse_input line args)) \<and>
         fst (parse_input line args) ! snd (parse_input line args) = None \<and>
         argv (fst (parse_input line args)) = take (MAX_ARGS - 1) (spec_tokens line)"
proof -
  note p = parse_input_tokens [OF assms, of line]
  have "(\<forall>c\<in>set line. is_delim c) \<longrightarrow> snd (parse_input line args) = 0"
  proof
    assume "\<forall>c\<in>set line. is_delim c"
    then have "spec_tokens line = []" by (simp add: spec_tokens_delims)
    then show "snd (parse_input line args) = 0" using p(1) by simp
  qed
  moreover have "snd (parse_input line args) < length (fst (parse_input line args))"
    using p(1,2) by (simp add: MAX_ARGS_def)
  ultimately show ?thesis
    using p argv_parse_input [OF assms, of line] by simp
qed

theorem parse_input_bounded_tokens_witness:
  "length (replicate 10 (Some ''old'')) = MAX_ARGS \<and>
   snd (parse_input ('' '' @ [CHR 0x09, CHR 0x0A]) (replicate 10 (Some ''old''))) = 0 \<and>
   fst (parse_input ('' '' @ [CHR 0x09, CHR 0x0A]) (replicate 10 (Some ''old''))) ! 0 = None \<and>
   argv (fst (parse_input (''a b  c d e f g h i j k'' @ [CHR 0x0A]) (replicate 10 (Some ''old''))))
     = [''a'', ''b'', ''c'', ''d'', ''e'', ''f'', ''g'', ''h'', ''i'']"
proof -
  have h: "length (replicate 10 (Some ''old'')) = MAX_ARGS"
    by (simp add: MAX_ARGS_def)
  have d: "\<forall>c\<in>set ('' '' @ [CHR 0x09, CHR 0x0A]). is_delim c"
    by (simp add: is_delim_def)
  have t: "take (MAX_ARGS - 1) (spec_tokens (''a b  c d e f g h i j k'' @ [CHR 0x0A]))
     = [''a'', ''b'', ''c'', ''d'', ''e'', ''f'', ''g'', ''h'', ''i'']"
    by code_simp
  note ws = parse_input_bounded_tokens [OF h, of "'' '' @ [CHR 0x09, CHR 0x0A]"]
  note many = parse_input_bounded_tokens [OF h, of "''a b  c d e f g h i j k'' @ [CHR 0x0A]"]
  have z: "snd (parse_input ('' '' @ [CHR 0x09, CHR 0x0A]) (replicate 10 (Some ''old''))) = 0"
    by (rule ws [THEN conjunct2, THEN conjunct2, THEN conjunct2, THEN conjunct1, THEN mp, OF d])
  have n: "fst (parse_input ('' '' @ [CHR 0x09, CHR 0x0A]) (replicate 10 (Some ''old''))) ! 0 = None"
    using ws [THEN conjunct2, THEN conjunct2, THEN conjunct2, THEN conjunct2, THEN conjunct2,
        THEN conjunct1]
    by (simp only: z)
  have a: "argv (fst (parse_input (''a b  c d e f g h i j k'' @ [CHR 0x0A]) (replicate 10 (Some ''old''))))
     = [''a'', ''b'', ''c'', ''d'', ''e'', ''f'', ''g'', ''h'', ''i'']"
    using many [THEN conjunct2, THEN conjunct2, THEN conjunct2, THEN conjunct2, THEN conjunct2,
        THEN conjunct2]
    by (simp only: t)
  show ?thesis
    by (intro conjI h z n a)
qed

section \<open>Properties of the executors\<close>

lemma mask7: "(0x7f :: 32 word) = mask 7"
  by (simp add: mask_eq_exp_minus_1)

lemma mask8_shifted: "(0xff00 :: 32 word) = push_bit 8 (mask 8)"
  by (simp add: mask_eq_exp_minus_1 push_bit_eq_mult)

lemma small_word:
  "c < 2 ^ k \<Longrightarrow> (word_of_nat c :: 32 word) = take_bit k (word_of_nat c)"
  by (simp add: take_bit_of_nat take_bit_nat_eq_self)

lemma word_of_small_nat_0:
  assumes "c < 256"
  shows "(word_of_nat c :: 32 word) = 0 \<longleftrightarrow> c = 0"
proof -
  have "unat (word_of_nat c :: 32 word) = c"
    using assms by (simp add: unat_of_nat)
  then show ?thesis
    by (metis unat_0_iff)
qed

lemma bit_128_nat: "bit (128 :: nat) n \<longleftrightarrow> n = 7"
  using bit_exp_iff [where ?'a = nat, of 7 n] by simp

lemma bit_128_int: "bit (128 :: int) n \<longleftrightarrow> n = 7"
  using bit_exp_iff [where ?'a = int, of 7 n] by simp

lemma bit_128: "bit (128 :: 32 word) n \<longleftrightarrow> n = 7"
  using bit_exp_iff [where ?'a = "32 word", of 7 n] bit_imp_le_length [of "128 :: 32 word" n]
  by auto

lemma exit_status_termsig: "(push_bit 8 w :: 32 word) AND 0x7f = 0"
  unfolding mask7 by (rule bit_eqI) (auto simp: bit_simps)

lemma exit_status_code: assumes "c < 256" shows "drop_bit 8 ((push_bit 8 (word_of_nat c) :: 32 word) AND 0xff00) = word_of_nat c"
proof -
  have w: "(word_of_nat c :: 32 word) = take_bit 8 (word_of_nat c)"
    using assms by (intro small_word) simp
  show ?thesis
    unfolding mask8_shifted
    by (subst (2) w, rule bit_eqI) (auto simp: bit_simps)
qed

lemma signal_status_termsig: assumes "1 \<le> sig" "sig \<le> 126" shows "((word_of_nat sig :: 32 word) OR (if core then 0x80 else 0)) AND 0x7f = word_of_nat sig"
proof -
  have w: "(word_of_nat sig :: 32 word) = take_bit 7 (word_of_nat sig)"
    using assms by (intro small_word) simp
  show ?thesis
    unfolding mask7
    by (subst (2) w, rule bit_eqI) (auto simp: bit_simps bit_128 bit_128_nat bit_128_int)
qed

lemma wait_status_success:
  assumes "valid_end e"
  shows "(WIFEXITED (wait_status e) \<and> WEXITSTATUS (wait_status e) = 0) \<longleftrightarrow> e = Exited 0"
proof (cases e)
  case (Exited c)
  with assms have c: "c < 256" by (simp add: valid_end_def)
  have m: "c mod 256 = c" using c by simp
  have t: "WIFEXITED (wait_status e)"
    by (simp only: WIFEXITED_def WTERMSIG_def wait_status_def Exited child_end.case
        exit_status_termsig)
  have x: "WEXITSTATUS (wait_status e) = word_of_nat c"
    by (simp only: WEXITSTATUS_def wait_status_def Exited child_end.case m
        exit_status_code [OF c])
  show ?thesis
    using t x word_of_small_nat_0 [OF c] by (simp add: Exited)
next
  case (Signaled sig core)
  with assms have s: "1 \<le> sig" "sig \<le> 126" by (simp_all add: valid_end_def)
  have "WTERMSIG (wait_status e) = word_of_nat sig"
    by (simp only: WTERMSIG_def wait_status_def Signaled child_end.case
        signal_status_termsig [OF s])
  moreover have "(word_of_nat sig :: 32 word) \<noteq> 0"
    using s word_of_small_nat_0 [of sig] by simp
  ultimately show ?thesis
    by (simp add: WIFEXITED_def Signaled)
qed

text \<open>
  Claim C1.  \<^verbatim>\<open>handle_and\<close> forks once for the left command; the child (\<^verbatim>\<open>fork\<close> returned
  \<open>0\<close>) calls \<^verbatim>\<open>execvp\<close> on the tokens of the left text.  The shell waits for it with a
  status variable.  The right text is tokenized and launched in foreground mode if and only
  if the status says normal termination with code zero: then, and only then, a second
  \<^verbatim>\<open>fork\<close> follows, whose child calls \<^verbatim>\<open>execvp\<close> on the tokens of the right text, whose
  parent waits for that child, and whose failure is reported.  For a status word that
  Linux produces for a child's end, the condition holds exactly for a normal exit with
  code \<open>0\<close>; after any other end (a non-zero code, a signal) nothing follows the wait.
\<close>

theorem handle_and_short_circuit:
  assumes "length args0 = MAX_ARGS"
  shows
   "(pid = 0 \<longrightarrow>
       handle_and left right args0 pid status pid2 =
         [Fork 0,
          Execvp (case take (MAX_ARGS - 1) (spec_tokens left) of [] \<Rightarrow> None | t # ts \<Rightarrow> Some t)
            (take (MAX_ARGS - 1) (spec_tokens left)) [Perror ''exec'', Exit 1]]) \<and>
    (pid \<noteq> 0 \<longrightarrow>
       handle_and left right args0 pid status pid2 =
           Fork pid # Waitpid pid True #
           (if WIFEXITED status \<and> WEXITSTATUS status = 0
            then execute_command (fst (parse_input right (fst (parse_input left args0)))) 0 pid2
            else []) \<and>
       (length (forks (handle_and left right args0 pid status pid2)) = 2
            \<longleftrightarrow> WIFEXITED status \<and> WEXITSTATUS status = 0) \<and>
       (valid_end e \<and> status = wait_status e \<longrightarrow>
            (forks (handle_and left right args0 pid status pid2)
               = (if e = Exited 0 then [pid, pid2] else [pid])) \<and>
            (e \<noteq> Exited 0 \<longrightarrow>
               handle_and left right args0 pid status pid2 = [Fork pid, Waitpid pid True])) \<and>
       (0 < pid2 \<and> WIFEXITED status \<and> WEXITSTATUS status = 0 \<longrightarrow>
            handle_and left right args0 pid status pid2
              = [Fork pid, Waitpid pid True, Fork pid2, Waitpid pid2 False]) \<and>
       (pid2 = 0 \<and> WIFEXITED status \<and> WEXITSTATUS status = 0 \<longrightarrow>
            handle_and left right args0 pid status pid2
              = [Fork pid, Waitpid pid True, Fork 0,
                 Execvp (case take (MAX_ARGS - 1) (spec_tokens right) of
                           [] \<Rightarrow> None | t # ts \<Rightarrow> Some t)
                   (take (MAX_ARGS - 1) (spec_tokens right))
                   [Perror ''exec error'', Exit EXIT_FAILURE]]) \<and>
       (pid2 < 0 \<and> WIFEXITED status \<and> WEXITSTATUS status = 0 \<longrightarrow>
            handle_and left right args0 pid status pid2
              = [Fork pid, Waitpid pid True, Fork pid2, Perror ''fork failed'']))"
proof -
  let ?l = "fst (parse_input left args0)"
  let ?r = "fst (parse_input right ?l)"
  have ll: "length ?l = MAX_ARGS"
    by (rule parse_input_tokens(2) [OF assms])
  have l0: "?l ! 0 = (case take (MAX_ARGS - 1) (spec_tokens left) of [] \<Rightarrow> None | t # ts \<Rightarrow> Some t)"
    by (rule parse_input_first [OF assms])
  have lv: "argv ?l = take (MAX_ARGS - 1) (spec_tokens left)"
    by (rule argv_parse_input [OF assms])
  have r0: "?r ! 0 = (case take (MAX_ARGS - 1) (spec_tokens right) of [] \<Rightarrow> None | t # ts \<Rightarrow> Some t)"
    by (rule parse_input_first [OF ll])
  have rv: "argv ?r = take (MAX_ARGS - 1) (spec_tokens right)"
    by (rule argv_parse_input [OF ll])
  have child: "pid = 0 \<longrightarrow>
       handle_and left right args0 pid status pid2 =
         [Fork 0,
          Execvp (case take (MAX_ARGS - 1) (spec_tokens left) of [] \<Rightarrow> None | t # ts \<Rightarrow> Some t)
            (take (MAX_ARGS - 1) (spec_tokens left)) [Perror ''exec'', Exit 1]]"
    by (simp add: handle_and_def Let_def l0 lv)
  have shell: "pid \<noteq> 0 \<longrightarrow>
       handle_and left right args0 pid status pid2 =
           Fork pid # Waitpid pid True #
           (if WIFEXITED status \<and> WEXITSTATUS status = 0
            then execute_command (fst (parse_input right (fst (parse_input left args0)))) 0 pid2
            else []) \<and>
       (length (forks (handle_and left right args0 pid status pid2)) = 2
            \<longleftrightarrow> WIFEXITED status \<and> WEXITSTATUS status = 0) \<and>
       (valid_end e \<and> status = wait_status e \<longrightarrow>
            (forks (handle_and left right args0 pid status pid2)
               = (if e = Exited 0 then [pid, pid2] else [pid])) \<and>
            (e \<noteq> Exited 0 \<longrightarrow>
               handle_and left right args0 pid status pid2 = [Fork pid, Waitpid pid True])) \<and>
       (0 < pid2 \<and> WIFEXITED status \<and> WEXITSTATUS status = 0 \<longrightarrow>
            handle_and left right args0 pid status pid2
              = [Fork pid, Waitpid pid True, Fork pid2, Waitpid pid2 False]) \<and>
       (pid2 = 0 \<and> WIFEXITED status \<and> WEXITSTATUS status = 0 \<longrightarrow>
            handle_and left right args0 pid status pid2
              = [Fork pid, Waitpid pid True, Fork 0,
                 Execvp (case take (MAX_ARGS - 1) (spec_tokens right) of
                           [] \<Rightarrow> None | t # ts \<Rightarrow> Some t)
                   (take (MAX_ARGS - 1) (spec_tokens right))
                   [Perror ''exec error'', Exit EXIT_FAILURE]]) \<and>
       (pid2 < 0 \<and> WIFEXITED status \<and> WEXITSTATUS status = 0 \<longrightarrow>
            handle_and left right args0 pid status pid2
              = [Fork pid, Waitpid pid True, Fork pid2, Perror ''fork failed''])"
  proof
    assume p: "pid \<noteq> 0"
    have eq: "handle_and left right args0 pid status pid2 =
           Fork pid # Waitpid pid True #
           (if WIFEXITED status \<and> WEXITSTATUS status = 0
            then execute_command (fst (parse_input right (fst (parse_input left args0)))) 0 pid2
            else [])"
      using p by (simp add: handle_and_def Let_def)
    have fk: "forks (execute_command a b q) = [q]" for a b q
      by (simp add: execute_command_def forks_def)
    have n: "length (forks (handle_and left right args0 pid status pid2)) = 2
            \<longleftrightarrow> WIFEXITED status \<and> WEXITSTATUS status = 0"
      unfolding eq using fk by (simp add: forks_def)
    have d: "valid_end e \<and> status = wait_status e \<longrightarrow>
            (forks (handle_and left right args0 pid status pid2)
               = (if e = Exited 0 then [pid, pid2] else [pid])) \<and>
            (e \<noteq> Exited 0 \<longrightarrow>
               handle_and left right args0 pid status pid2 = [Fork pid, Waitpid pid True])"
    proof (intro impI, elim conjE)
      assume v: "valid_end e" and s: "status = wait_status e"
      note w = wait_status_success [OF v, folded s]
      show "(forks (handle_and left right args0 pid status pid2)
               = (if e = Exited 0 then [pid, pid2] else [pid])) \<and>
            (e \<noteq> Exited 0 \<longrightarrow>
               handle_and left right args0 pid status pid2 = [Fork pid, Waitpid pid True])"
        unfolding eq using w fk by (simp add: forks_def)
    qed
    have f: "0 < pid2 \<and> WIFEXITED status \<and> WEXITSTATUS status = 0 \<longrightarrow>
            handle_and left right args0 pid status pid2
              = [Fork pid, Waitpid pid True, Fork pid2, Waitpid pid2 False]"
      unfolding eq by (simp add: execute_command_def)
    have c: "pid2 = 0 \<and> WIFEXITED status \<and> WEXITSTATUS status = 0 \<longrightarrow>
            handle_and left right args0 pid status pid2
              = [Fork pid, Waitpid pid True, Fork 0,
                 Execvp (case take (MAX_ARGS - 1) (spec_tokens right) of
                           [] \<Rightarrow> None | t # ts \<Rightarrow> Some t)
                   (take (MAX_ARGS - 1) (spec_tokens right))
                   [Perror ''exec error'', Exit EXIT_FAILURE]]"
      unfolding eq by (simp add: execute_command_def r0 rv)
    have x: "pid2 < 0 \<and> WIFEXITED status \<and> WEXITSTATUS status = 0 \<longrightarrow>
            handle_and left right args0 pid status pid2
              = [Fork pid, Waitpid pid True, Fork pid2, Perror ''fork failed'']"
      unfolding eq by (simp add: execute_command_def)
    show "handle_and left right args0 pid status pid2 =
           Fork pid # Waitpid pid True #
           (if WIFEXITED status \<and> WEXITSTATUS status = 0
            then execute_command (fst (parse_input right (fst (parse_input left args0)))) 0 pid2
            else []) \<and>
       (length (forks (handle_and left right args0 pid status pid2)) = 2
            \<longleftrightarrow> WIFEXITED status \<and> WEXITSTATUS status = 0) \<and>
       (valid_end e \<and> status = wait_status e \<longrightarrow>
            (forks (handle_and left right args0 pid status pid2)
               = (if e = Exited 0 then [pid, pid2] else [pid])) \<and>
            (e \<noteq> Exited 0 \<longrightarrow>
               handle_and left right args0 pid status pid2 = [Fork pid, Waitpid pid True])) \<and>
       (0 < pid2 \<and> WIFEXITED status \<and> WEXITSTATUS status = 0 \<longrightarrow>
            handle_and left right args0 pid status pid2
              = [Fork pid, Waitpid pid True, Fork pid2, Waitpid pid2 False]) \<and>
       (pid2 = 0 \<and> WIFEXITED status \<and> WEXITSTATUS status = 0 \<longrightarrow>
            handle_and left right args0 pid status pid2
              = [Fork pid, Waitpid pid True, Fork 0,
                 Execvp (case take (MAX_ARGS - 1) (spec_tokens right) of
                           [] \<Rightarrow> None | t # ts \<Rightarrow> Some t)
                   (take (MAX_ARGS - 1) (spec_tokens right))
                   [Perror ''exec error'', Exit EXIT_FAILURE]]) \<and>
       (pid2 < 0 \<and> WIFEXITED status \<and> WEXITSTATUS status = 0 \<longrightarrow>
            handle_and left right args0 pid status pid2
              = [Fork pid, Waitpid pid True, Fork pid2, Perror ''fork failed''])"
      by (intro conjI eq n d f c x)
  qed
  show ?thesis by (intro conjI child shell)
qed

theorem handle_and_short_circuit_witness:
  "handle_and ''false '' '' echo hi'' junk_args 41 (wait_status (Exited 1)) 42
      = [Fork 41, Waitpid 41 True] \<and>
   handle_and ''true '' '' echo hi'' junk_args 41 (wait_status (Signaled 9 False)) 42
      = [Fork 41, Waitpid 41 True] \<and>
   handle_and ''true '' '' echo hi'' junk_args 41 (wait_status (Exited 0)) 42
      = [Fork 41, Waitpid 41 True, Fork 42, Waitpid 42 False] \<and>
   handle_and ''true '' '' echo hi'' junk_args 41 (wait_status (Exited 0)) 0
      = [Fork 41, Waitpid 41 True, Fork 0,
         Execvp (Some ''echo'') [''echo'', ''hi''] [Perror ''exec error'', Exit 1]] \<and>
   handle_and ''true '' '' echo hi'' junk_args 41 (wait_status (Exited 0)) (- 1)
      = [Fork 41, Waitpid 41 True, Fork (- 1), Perror ''fork failed''] \<and>
   handle_and ''true '' '' echo hi'' junk_args 0 (wait_status (Exited 0)) 42
      = [Fork 0, Execvp (Some ''true'') [''true''] [Perror ''exec'', Exit 1]]"
proof -
  have h: "length junk_args = MAX_ARGS" by (simp add: junk_args_def MAX_ARGS_def)
  have p: "(41 :: int) \<noteq> 0" by simp
  have z: "(0 :: int) = 0" by simp
  have v1: "valid_end (Exited 1) \<and> wait_status (Exited 1) = wait_status (Exited 1)"
    by (simp add: valid_end_def)
  have v2: "valid_end (Signaled 9 False) \<and> wait_status (Signaled 9 False) = wait_status (Signaled 9 False)"
    by (simp add: valid_end_def)
  have s0: "WIFEXITED (wait_status (Exited 0)) \<and> WEXITSTATUS (wait_status (Exited 0)) = 0"
    by (simp add: WIFEXITED_def WTERMSIG_def WEXITSTATUS_def wait_status_def)
  have ok: "(0 :: int) < 42 \<and> WIFEXITED (wait_status (Exited 0)) \<and> WEXITSTATUS (wait_status (Exited 0)) = 0"
    using s0 by simp
  have okc: "(0 :: int) = 0 \<and> WIFEXITED (wait_status (Exited 0)) \<and> WEXITSTATUS (wait_status (Exited 0)) = 0"
    using s0 by simp
  have okf: "(- 1 :: int) < 0 \<and> WIFEXITED (wait_status (Exited 0)) \<and> WEXITSTATUS (wait_status (Exited 0)) = 0"
    using s0 by simp
  note T1 = handle_and_short_circuit [OF h, where pid = 41 and left = "''false ''"
      and right = "'' echo hi''" and status = "wait_status (Exited 1)" and ?pid2.0 = 42
      and e = "Exited 1", THEN conjunct2, THEN mp, OF p]
  note T2 = handle_and_short_circuit [OF h, where pid = 41 and left = "''true ''"
      and right = "'' echo hi''" and status = "wait_status (Signaled 9 False)" and ?pid2.0 = 42
      and e = "Signaled 9 False", THEN conjunct2, THEN mp, OF p]
  note T3 = handle_and_short_circuit [OF h, where pid = 41 and left = "''true ''"
      and right = "'' echo hi''" and status = "wait_status (Exited 0)" and ?pid2.0 = 42
      and e = "Exited 0", THEN conjunct2, THEN mp, OF p]
  note T4 = handle_and_short_circuit [OF h, where pid = 41 and left = "''true ''"
      and right = "'' echo hi''" and status = "wait_status (Exited 0)" and ?pid2.0 = 0
      and e = "Exited 0", THEN conjunct2, THEN mp, OF p]
  note T5 = handle_and_short_circuit [OF h, where pid = 41 and left = "''true ''"
      and right = "'' echo hi''" and status = "wait_status (Exited 0)" and ?pid2.0 = "- 1"
      and e = "Exited 0", THEN conjunct2, THEN mp, OF p]
  note T6 = handle_and_short_circuit [OF h, where pid = 0 and left = "''true ''"
      and right = "'' echo hi''" and status = "wait_status (Exited 0)" and ?pid2.0 = 42
      and e = "Exited 0", THEN conjunct1, THEN mp, OF z]
  have n1: "Exited 1 \<noteq> Exited 0" and n2: "Signaled 9 False \<noteq> Exited 0" by simp_all
  have a: "handle_and ''false '' '' echo hi'' junk_args 41 (wait_status (Exited 1)) 42
      = [Fork 41, Waitpid 41 True]"
    by (rule T1 [THEN conjunct2, THEN conjunct2, THEN conjunct1, THEN mp, OF v1,
          THEN conjunct2, THEN mp, OF n1])
  have b: "handle_and ''true '' '' echo hi'' junk_args 41 (wait_status (Signaled 9 False)) 42
      = [Fork 41, Waitpid 41 True]"
    by (rule T2 [THEN conjunct2, THEN conjunct2, THEN conjunct1, THEN mp, OF v2,
          THEN conjunct2, THEN mp, OF n2])
  have c: "handle_and ''true '' '' echo hi'' junk_args 41 (wait_status (Exited 0)) 42
      = [Fork 41, Waitpid 41 True, Fork 42, Waitpid 42 False]"
    by (rule T3 [THEN conjunct2, THEN conjunct2, THEN conjunct2, THEN conjunct1, THEN mp, OF ok])
  have ed: "[Fork 41, Waitpid 41 True, Fork 0,
                 Execvp (case take (MAX_ARGS - 1) (spec_tokens '' echo hi'') of
                           [] \<Rightarrow> None | t # ts \<Rightarrow> Some t)
                   (take (MAX_ARGS - 1) (spec_tokens '' echo hi''))
                   [Perror ''exec error'', Exit EXIT_FAILURE]]
      = [Fork 41, Waitpid 41 True, Fork 0,
         Execvp (Some ''echo'') [''echo'', ''hi''] [Perror ''exec error'', Exit 1]]"
    by code_simp
  have d: "handle_and ''true '' '' echo hi'' junk_args 41 (wait_status (Exited 0)) 0
      = [Fork 41, Waitpid 41 True, Fork 0,
         Execvp (Some ''echo'') [''echo'', ''hi''] [Perror ''exec error'', Exit 1]]"
    by (rule trans [OF T4 [THEN conjunct2, THEN conjunct2, THEN conjunct2, THEN conjunct2,
          THEN conjunct1, THEN mp, OF okc] ed])
  have f: "handle_and ''true '' '' echo hi'' junk_args 41 (wait_status (Exited 0)) (- 1)
      = [Fork 41, Waitpid 41 True, Fork (- 1), Perror ''fork failed'']"
    by (rule T5 [THEN conjunct2, THEN conjunct2, THEN conjunct2, THEN conjunct2,
          THEN conjunct2, THEN mp, OF okf])
  have eg: "[Fork 0,
          Execvp (case take (MAX_ARGS - 1) (spec_tokens ''true '') of [] \<Rightarrow> None | t # ts \<Rightarrow> Some t)
            (take (MAX_ARGS - 1) (spec_tokens ''true '')) [Perror ''exec'', Exit 1]]
      = [Fork 0, Execvp (Some ''true'') [''true''] [Perror ''exec'', Exit 1]]"
    by code_simp
  have g: "handle_and ''true '' '' echo hi'' junk_args 0 (wait_status (Exited 0)) 42
      = [Fork 0, Execvp (Some ''true'') [''true''] [Perror ''exec'', Exit 1]]"
    by (rule trans [OF T6 eg])
  show ?thesis by (intro conjI a b c d f g)
qed

text \<open>
  Claim C4.  In every run of \<^verbatim>\<open>handle_pipe\<close>, whatever the \<^verbatim>\<open>fork\<close> calls return, all
  \<^verbatim>\<open>fork\<close> calls come before all \<^verbatim>\<open>close\<close> calls, and all \<^verbatim>\<open>close\<close> calls before all
  \<^verbatim>\<open>waitpid\<close> calls.  The orchestrating process (neither \<^verbatim>\<open>fork\<close> returned \<open>0\<close>) forks
  twice, closes both pipe descriptors, and then waits for the first and the second child.
\<close>

theorem handle_pipe_order:
  "all_before is_fork is_close (handle_pipe left right args0 rd wr pid1 pid2) \<and>
   all_before is_close is_wait (handle_pipe left right args0 rd wr pid1 pid2) \<and>
   (pid1 \<noteq> 0 \<and> pid2 \<noteq> 0 \<longrightarrow>
      forks (handle_pipe left right args0 rd wr pid1 pid2) = [pid1, pid2] \<and>
      closes (handle_pipe left right args0 rd wr pid1 pid2) = [rd, wr] \<and>
      waits (handle_pipe left right args0 rd wr pid1 pid2) = [pid1, pid2] \<and>
      handle_pipe left right args0 rd wr pid1 pid2 =
        [Pipe rd wr, Fork pid1, Fork pid2, Close rd, Close wr,
         Waitpid pid1 False, Waitpid pid2 False])"
  by (simp add: handle_pipe_def all_before_def is_fork_def is_close_def is_wait_def forks_def
      closes_def waits_def Let_def)

theorem handle_pipe_order_witness:
  "handle_pipe ''ls '' '' wc'' junk_args 3 4 41 42 =
     [Pipe 3 4, Fork 41, Fork 42, Close 3, Close 4, Waitpid 41 False, Waitpid 42 False] \<and>
   waits (handle_pipe ''ls '' '' wc'' junk_args 3 4 41 42) = [41, 42]"
proof -
  have p: "(41 :: int) \<noteq> 0 \<and> (42 :: int) \<noteq> 0" by simp
  show ?thesis
    using handle_pipe_order [of "''ls ''" "'' wc''" junk_args 3 4 41 42] p by blast
qed

text \<open>
  Claim C7.  A background launch (\<open>background\<close> non-zero, \<^verbatim>\<open>fork\<close> returned the child's
  id) makes no call of \<^verbatim>\<open>waitpid\<close>, prints the single line
  \<^verbatim>\<open>[BG] Process ID: <pid>\<close> with the child's id in decimal, makes no further call, and
  the loop goes on; nothing the child does enters the result.
\<close>

theorem execute_command_background:
  assumes "0 < pid" and "background \<noteq> 0"
  shows "execute_command args background pid = [Fork pid, Printf (bg_line pid)] \<and>
         prints (execute_command args background pid)
           = [''[BG] Process ID: '' @ show_int pid @ [CHR 0x0A]] \<and>
         waits (execute_command args background pid) = [] \<and>
         after (execute_command args background pid) = Continue"
  using assms by (simp add: execute_command_def prints_def waits_def after_def bg_line_def)

theorem execute_command_background_witness:
  "prints (execute_command junk_args 1 1234) = [''[BG] Process ID: 1234'' @ [CHR 0x0A]] \<and>
   waits (execute_command junk_args 1 1234) = []"
proof -
  have p: "(0 :: int) < 1234" and b: "(1 :: int) \<noteq> 0" by simp_all
  have s: "show_int 1234 = ''1234''" by code_simp
  have e: "''[BG] Process ID: '' @ show_int 1234 @ [CHR 0x0A] = ''[BG] Process ID: 1234'' @ [CHR 0x0A]"
    by (simp add: s)
  note T = execute_command_background [OF p b, of junk_args]
  have x: "prints (execute_command junk_args 1 1234) = [''[BG] Process ID: 1234'' @ [CHR 0x0A]]"
    using T [THEN conjunct2, THEN conjunct1] by (simp only: e)
  have y: "waits (execute_command junk_args 1 1234) = []"
    by (rule T [THEN conjunct2, THEN conjunct2, THEN conjunct1])
  show ?thesis by (intro conjI x y)
qed

text \<open>
  Claim C2, at the line \<^verbatim>\<open>ls |\<close>, observed in the second child (its \<^verbatim>\<open>fork\<close> returned
  \<open>0\<close>): the right command has zero tokens, and the child calls \<^verbatim>\<open>execvp\<close> with the
  \<^verbatim>\<open>NULL\<close> pointer as the program name, without any test of the token count.
\<close>

theorem handle_pipe_null_program:
  "main_iteration (sample_answers\<lparr>fork2 := 0\<rparr>) initial_state (''ls |'' @ [CHR 0x0A]) =
     Some (add_to_history (''ls |'' @ [CHR 0x0A]) initial_state,
           [Pipe 3 4, Fork 41, Fork 0, Dup2 3 STDIN_FILENO, Close 4, Close 3,
            Execvp None [] [Perror ''exec right'', Exit 1]],
           Gone)"
  by code_simp

text \<open>
  Claim C5, at the line \<^verbatim>\<open>ls | wc\<close> when the first \<^verbatim>\<open>fork\<close> fails with \<open>-1\<close>:
  \<^verbatim>\<open>execute_command\<close> reports a failed \<^verbatim>\<open>fork\<close> and stops, but \<^verbatim>\<open>handle_pipe\<close> reports
  nothing and carries on: it forks the second child, closes the descriptors and waits for
  process id \<open>-1\<close>, which is a wait for any child.
\<close>

theorem handle_pipe_fork_failure_unchecked:
  "execute_command junk_args 0 (- 1) = [Fork (- 1), Perror ''fork failed''] \<and>
   main_iteration (sample_answers\<lparr>fork1 := - 1\<rparr>) initial_state (''ls | wc'' @ [CHR 0x0A]) =
     Some (add_to_history (''ls | wc'' @ [CHR 0x0A]) initial_state,
           [Pipe 3 4, Fork (- 1), Fork 42, Close 3, Close 4,
            Waitpid (- 1) False, Waitpid 42 False],
           Continue)"
  by code_simp

section \<open>Properties of the history\<close>

lemma somes_simps [simp]:
  "somes [] = []" "somes (None # xs) = somes xs" "somes (Some x # xs) = x # somes xs"
  by (simp_all add: somes_def)

lemma somes_append [simp]: "somes (xs @ ys) = somes xs @ somes ys"
  by (simp add: somes_def)

lemma somes_replicate_None [simp]: "somes (replicate n None) = []"
  by (induction n) simp_all

lemma somes_map_Some [simp]: "somes (map Some xs) = xs"
  by (induction xs) simp_all

lemma next_index_wraps:
  fixes start j :: nat
  assumes "start < 10" "j < 10"
  shows "Suc ((start + j) mod 10) mod 10 = (start + Suc j) mod 10"
    and "(start + Suc j) mod 10 = start \<longleftrightarrow> j = 9"
proof -
  show "Suc ((start + j) mod 10) mod 10 = (start + Suc j) mod 10"
    by (simp add: mod_Suc_eq)
  show "(start + Suc j) mod 10 = start \<longleftrightarrow> j = 9"
  proof (cases "start + Suc j < 10")
    case True
    then show ?thesis by simp
  next
    case False
    then have "(start + Suc j) mod 10 = (start + Suc j - 10) mod 10"
      by (simp add: le_mod_geq)
    also have "\<dots> = start + Suc j - 10"
      using assms by (intro mod_less) linarith
    finally show ?thesis using False assms by linarith
  qed
qed

lemma show_loop_step:
  "show_loop h start idx count out =
     (case h ! idx of
        None \<Rightarrow>
          (if Suc idx mod HISTORY_COUNT \<noteq> start \<and> count < HISTORY_COUNT
           then show_loop h start (Suc idx mod HISTORY_COUNT) count out
           else Some out)
      | Some cmd \<Rightarrow>
          (if Suc idx mod HISTORY_COUNT \<noteq> start \<and> Suc count < HISTORY_COUNT
           then show_loop h start (Suc idx mod HISTORY_COUNT) (Suc count)
                  (out @ [history_line (Suc count) cmd])
           else Some (out @ [history_line (Suc count) cmd])))"
  by (subst show_loop.simps) (simp add: Let_def split: option.split)

lemma show_loop_from:
  assumes "length h = HISTORY_COUNT" "start < HISTORY_COUNT"
  shows "j < HISTORY_COUNT \<Longrightarrow> count \<le> j \<Longrightarrow>
    show_loop h start ((start + j) mod HISTORY_COUNT) count out
      = Some (out @ numbered count (somes (drop j (rotate start h))))"
proof (induction "HISTORY_COUNT - j" arbitrary: j count out)
  case 0
  then show ?case by simp
next
  case (Suc k)
  let ?idx = "(start + j) mod HISTORY_COUNT"
  let ?nxt = "(start + Suc j) mod HISTORY_COUNT"
  have len: "length (rotate start h) = HISTORY_COUNT" using assms by simp
  have entry: "rotate start h ! j = h ! ?idx"
    using Suc.prems assms by (simp add: nth_rotate)
  have dr: "drop j (rotate start h) = h ! ?idx # drop (Suc j) (rotate start h)"
    using Suc.prems len entry by (metis Cons_nth_drop_Suc)
  have nx: "Suc ?idx mod HISTORY_COUNT = ?nxt"
    and wr: "?nxt = start \<longleftrightarrow> j = 9"
    using next_index_wraps [of start j] assms Suc.prems by (simp_all add: HISTORY_COUNT_def)
  have nx': "Suc (start + j) mod HISTORY_COUNT = ?nxt" by (simp only: add_Suc_right)
  show ?case
  proof (cases "j = 9")
    case True
    have e: "drop (Suc j) (rotate start h) = []" using len True by (simp add: HISTORY_COUNT_def)
    have s2: "?nxt = start" using wr True by blast
    have stop: "Suc ?idx mod HISTORY_COUNT = start" "Suc (start + j) mod HISTORY_COUNT = start"
      by (simp only: nx s2, simp only: nx' s2)
    show ?thesis
    proof (cases "h ! ?idx")
      case None
      have "show_loop h start ?idx count out = Some out"
        by (subst show_loop_step) (simp add: None stop)
      then show ?thesis by (simp add: dr e None)
    next
      case (Some cmd)
      have "show_loop h start ?idx count out = Some (out @ [history_line (Suc count) cmd])"
        by (subst show_loop_step) (simp add: Some stop)
      then show ?thesis by (simp add: dr e Some)
    qed
  next
    case False
    with Suc.prems have j1: "Suc j < HISTORY_COUNT" by (simp add: HISTORY_COUNT_def)
    have k: "k = HISTORY_COUNT - Suc j" using Suc.hyps(2) by simp
    have g2: "?nxt \<noteq> start" using wr False by blast
    have go1: "Suc ?idx mod HISTORY_COUNT \<noteq> start"
      unfolding nx by (rule g2)
    have go2: "Suc (start + j) mod HISTORY_COUNT \<noteq> start"
      unfolding nx' by (rule g2)
    note go = go1 go2
    have cn: "Suc count < HISTORY_COUNT" "count < HISTORY_COUNT"
      using Suc.prems(2) j1 by simp_all
    show ?thesis
    proof (cases "h ! ?idx")
      case None
      have "show_loop h start ?idx count out = show_loop h start (Suc ?idx mod HISTORY_COUNT) count out"
        by (subst show_loop_step) (simp add: None go cn)
      also have "\<dots> = show_loop h start ?nxt count out"
        by (simp only: nx)
      also have "\<dots> = Some (out @ numbered count (somes (drop (Suc j) (rotate start h))))"
        using Suc.prems(2) by (intro Suc.hyps(1) [OF k j1]) simp
      finally show ?thesis by (simp add: dr None)
    next
      case (Some cmd)
      have "show_loop h start ?idx count out
          = show_loop h start (Suc ?idx mod HISTORY_COUNT) (Suc count)
              (out @ [history_line (Suc count) cmd])"
        by (subst show_loop_step) (simp add: Some go cn)
      also have "\<dots> = show_loop h start ?nxt (Suc count) (out @ [history_line (Suc count) cmd])"
        by (simp only: nx)
      also have "\<dots> = Some ((out @ [history_line (Suc count) cmd])
            @ numbered (Suc count) (somes (drop (Suc j) (rotate start h))))"
        using Suc.prems(2) by (intro Suc.hyps(1) [OF k j1]) simp
      finally show ?thesis by (simp add: dr Some)
    qed
  qed
qed

lemma show_history_rotate:
  assumes "state_ok st"
  shows "show_history st = Some (numbered 0 (somes (rotate (history_index st) (history st))))"
proof -
  from assms have l: "length (history st) = HISTORY_COUNT" and i: "history_index st < HISTORY_COUNT"
    by (simp_all add: state_ok_def)
  have "show_loop (history st) (history_index st) ((history_index st + 0) mod HISTORY_COUNT) 0 []
      = Some ([] @ numbered 0 (somes (drop 0 (rotate (history_index st) (history st)))))"
    by (rule show_loop_from [OF l i]) (simp_all add: HISTORY_COUNT_def)
  then show ?thesis using i by (simp add: show_history_def)
qed

lemma rotate_update_next:
  assumes "i < length h"
  shows "rotate ((i + 1) mod length h) (h[i := v]) = tl (rotate i h) @ [v]"
proof -
  have r: "rotate i h = drop i h @ take i h"
    using assms by (simp add: rotate_drop_take)
  have d: "drop i h = h ! i # drop (Suc i) h"
    using assms by (simp add: Cons_nth_drop_Suc)
  have t: "tl (rotate i h) = drop (Suc i) h @ take i h"
    by (simp add: r d)
  show ?thesis
  proof (cases "Suc i = length h")
    case True
    then have "h[i := v] = take i h @ [v]"
      using assms by (metis append_Nil2 drop_all le_refl upd_conv_take_nth_drop)
    then show ?thesis using True t by simp
  next
    case False
    with assms have s: "Suc i < length h" by simp
    then have "rotate (Suc i) (h[i := v]) = drop (Suc i) (h[i := v]) @ take (Suc i) (h[i := v])"
      by (simp add: rotate_drop_take)
    also have "\<dots> = drop (Suc i) h @ take i h @ [v]"
      using assms by (simp add: take_Suc_conv_app_nth)
    finally show ?thesis using s t by simp
  qed
qed

lemma record_all_snoc: "record_all (cmds @ [c]) st = add_to_history c (record_all cmds st)"
  by (simp add: record_all_def)

lemma window_snoc:
  "window (cmds @ [c]) = (if length cmds < HISTORY_COUNT then window cmds else tl (window cmds)) @ [c]"
proof (cases "length cmds < HISTORY_COUNT")
  case True
  then show ?thesis by (simp add: window_def)
next
  case False
  define n where "n = length cmds - HISTORY_COUNT"
  have d: "length (cmds @ [c]) - HISTORY_COUNT = Suc n"
    using False by (simp add: n_def)
  have le: "Suc n \<le> length cmds"
    using False by (simp add: n_def HISTORY_COUNT_def)
  have "window (cmds @ [c]) = drop (Suc n) (cmds @ [c])"
    by (simp only: window_def d)
  also have "\<dots> = drop (Suc n) cmds @ [c]"
    using le by simp
  also have "drop (Suc n) cmds = tl (drop n cmds)"
    by (simp add: tl_drop drop_Suc)
  finally show ?thesis using False by (simp add: window_def n_def)
qed

lemma length_window: "length (window cmds) = min (length cmds) HISTORY_COUNT"
  by (auto simp: window_def)

lemma record_all_ring:
  "state_ok (record_all cmds initial_state) \<and>
   history_index (record_all cmds initial_state) = length cmds mod HISTORY_COUNT \<and>
   rotate (history_index (record_all cmds initial_state)) (history (record_all cmds initial_state))
     = replicate (HISTORY_COUNT - length (window cmds)) None @ map Some (window cmds)"
proof (induction cmds rule: rev_induct)
  case Nil
  show ?case
    by (simp add: record_all_def initial_state_def state_ok_def window_def HISTORY_COUNT_def)
next
  case (snoc c cmds)
  let ?st = "record_all cmds initial_state"
  from snoc have ok: "state_ok ?st"
    and ix: "history_index ?st = length cmds mod HISTORY_COUNT"
    and ring: "rotate (history_index ?st) (history ?st)
       = replicate (HISTORY_COUNT - length (window cmds)) None @ map Some (window cmds)"
    by blast+
  from ok have l: "length (history ?st) = HISTORY_COUNT" and i: "history_index ?st < length (history ?st)"
    by (simp_all add: state_ok_def)
  have st': "record_all (cmds @ [c]) initial_state
      = ?st\<lparr>history := (history ?st)[history_index ?st := Some c],
            history_index := (history_index ?st + 1) mod HISTORY_COUNT\<rparr>"
    by (simp add: record_all_snoc add_to_history_def)
  have ok': "state_ok (record_all (cmds @ [c]) initial_state)"
    using l by (simp add: st' state_ok_def HISTORY_COUNT_def)
  have ix': "history_index (record_all (cmds @ [c]) initial_state) = length (cmds @ [c]) mod HISTORY_COUNT"
    by (simp add: st' ix mod_Suc_eq)
  have "rotate (history_index (record_all (cmds @ [c]) initial_state))
          (history (record_all (cmds @ [c]) initial_state))
      = tl (rotate (history_index ?st) (history ?st)) @ [Some c]"
    using rotate_update_next [OF i, of "Some c"] by (simp add: st' l)
  also have "\<dots> = replicate (HISTORY_COUNT - length (window (cmds @ [c]))) None
            @ map Some (window (cmds @ [c]))"
  proof (cases "length cmds < HISTORY_COUNT")
    case True
    then have "HISTORY_COUNT - length (window cmds) = Suc (HISTORY_COUNT - length (window (cmds @ [c])))"
      by (simp add: length_window)
    then show ?thesis using True by (simp add: ring window_snoc)
  next
    case False
    then have f: "length (window cmds) = HISTORY_COUNT" by (simp add: length_window)
    then have "window cmds \<noteq> []" by (auto simp: HISTORY_COUNT_def)
    then show ?thesis using False f by (simp add: ring window_snoc length_window map_tl)
  qed
  finally show ?case using ok' ix' by simp
qed

lemma show_history_returns:
  "state_ok st \<Longrightarrow> show_history st \<noteq> None"
  by (simp add: show_history_rotate)

lemma state_ok_add_to_history: "state_ok st \<Longrightarrow> state_ok (add_to_history c st)"
  by (simp add: state_ok_def add_to_history_def HISTORY_COUNT_def)

lemma state_ok_initial: "state_ok initial_state"
  by (simp add: state_ok_def initial_state_def HISTORY_COUNT_def)

text \<open>
  Claim C8.  After any sequence of lines was recorded from the initial state,
  \<^verbatim>\<open>show_history\<close> returns, and it lists exactly the last \<open>HISTORY_COUNT\<close> (ten) of them
  (all of them if there are fewer), oldest first in the order of entry, numbered from 1.
  Recording a line writes the slot at \<open>history_index\<close>; once ten lines are stored, that
  slot holds the oldest line of the listing, which thereby leaves it.
\<close>

theorem history_lists_recent_window:
  "show_history (record_all cmds initial_state) = Some (numbered 0 (window cmds)) \<and>
   window cmds = drop (length cmds - HISTORY_COUNT) cmds \<and>
   length (window cmds) = min (length cmds) HISTORY_COUNT \<and>
   history (record_all (cmds @ [c]) initial_state)
     = (history (record_all cmds initial_state))
         [history_index (record_all cmds initial_state) := Some c] \<and>
   (HISTORY_COUNT \<le> length cmds \<longrightarrow>
      history (record_all cmds initial_state) ! history_index (record_all cmds initial_state)
         = Some (hd (window cmds)) \<and>
      window (cmds @ [c]) = tl (window cmds) @ [c])"
proof -
  let ?st = "record_all cmds initial_state"
  note r = record_all_ring [of cmds]
  from r have ok: "state_ok ?st"
    and ring: "rotate (history_index ?st) (history ?st)
       = replicate (HISTORY_COUNT - length (window cmds)) None @ map Some (window cmds)"
    by blast+
  have a: "show_history ?st = Some (numbered 0 (window cmds))"
    by (simp add: show_history_rotate [OF ok] ring)
  have b: "history (record_all (cmds @ [c]) initial_state)
     = (history ?st)[history_index ?st := Some c]"
    by (simp add: record_all_snoc add_to_history_def)
  have d: "HISTORY_COUNT \<le> length cmds \<longrightarrow>
      history ?st ! history_index ?st = Some (hd (window cmds)) \<and>
      window (cmds @ [c]) = tl (window cmds) @ [c]"
  proof
    assume full: "HISTORY_COUNT \<le> length cmds"
    then have lw: "length (window cmds) = HISTORY_COUNT" by (simp add: length_window)
    then have ne: "window cmds \<noteq> []" by (auto simp: HISTORY_COUNT_def)
    from ok have l: "length (history ?st) = HISTORY_COUNT" and i: "history_index ?st < length (history ?st)"
      by (simp_all add: state_ok_def)
    have hne: "history ?st \<noteq> []" using l by (auto simp: HISTORY_COUNT_def)
    have "hd (rotate (history_index ?st) (history ?st)) = history ?st ! history_index ?st"
      using i hne by (simp add: hd_rotate_conv_nth)
    moreover have "hd (rotate (history_index ?st) (history ?st)) = Some (hd (window cmds))"
      using ne by (simp add: ring lw hd_map)
    ultimately have "history ?st ! history_index ?st = Some (hd (window cmds))" by simp
    moreover have "window (cmds @ [c]) = tl (window cmds) @ [c]"
      using full by (simp add: window_snoc)
    ultimately show "history ?st ! history_index ?st = Some (hd (window cmds)) \<and>
      window (cmds @ [c]) = tl (window cmds) @ [c]" by (rule conjI)
  qed
  have w: "window cmds = drop (length cmds - HISTORY_COUNT) cmds" by (rule window_def)
  have lw: "length (window cmds) = min (length cmds) HISTORY_COUNT" by (rule length_window)
  show ?thesis by (intro conjI a w lw b d)
qed

theorem history_lists_recent_window_witness:
  "show_history (record_all [''a'', ''b'', ''c'', ''d'', ''e'', ''f'', ''g'', ''h'', ''i'', ''j'', ''k'', ''l''] initial_state)
     = Some [''[1] c'' @ [CHR 0x0A], ''[2] d'' @ [CHR 0x0A], ''[3] e'' @ [CHR 0x0A], ''[4] f'' @ [CHR 0x0A], ''[5] g'' @ [CHR 0x0A], ''[6] h'' @ [CHR 0x0A], ''[7] i'' @ [CHR 0x0A], ''[8] j'' @ [CHR 0x0A], ''[9] k'' @ [CHR 0x0A], ''[10] l'' @ [CHR 0x0A]] \<and>
   history (record_all [''a'', ''b'', ''c'', ''d'', ''e'', ''f'', ''g'', ''h'', ''i'', ''j'', ''k'', ''l''] initial_state)
     ! history_index (record_all [''a'', ''b'', ''c'', ''d'', ''e'', ''f'', ''g'', ''h'', ''i'', ''j'', ''k'', ''l''] initial_state) = Some ''c''"
proof -
  have full: "HISTORY_COUNT \<le> length [''a'', ''b'', ''c'', ''d'', ''e'', ''f'', ''g'', ''h'', ''i'', ''j'', ''k'', ''l'']"
    by (simp add: HISTORY_COUNT_def)
  have e: "numbered 0 (window [''a'', ''b'', ''c'', ''d'', ''e'', ''f'', ''g'', ''h'', ''i'', ''j'', ''k'', ''l'']) = [''[1] c'' @ [CHR 0x0A], ''[2] d'' @ [CHR 0x0A], ''[3] e'' @ [CHR 0x0A], ''[4] f'' @ [CHR 0x0A], ''[5] g'' @ [CHR 0x0A], ''[6] h'' @ [CHR 0x0A], ''[7] i'' @ [CHR 0x0A], ''[8] j'' @ [CHR 0x0A], ''[9] k'' @ [CHR 0x0A], ''[10] l'' @ [CHR 0x0A]]"
    by code_simp
  have h: "hd (window [''a'', ''b'', ''c'', ''d'', ''e'', ''f'', ''g'', ''h'', ''i'', ''j'', ''k'', ''l'']) = ''c''"
    by code_simp
  note T = history_lists_recent_window [of "[''a'', ''b'', ''c'', ''d'', ''e'', ''f'', ''g'', ''h'', ''i'', ''j'', ''k'', ''l'']" "''m''"]
  have a: "show_history (record_all [''a'', ''b'', ''c'', ''d'', ''e'', ''f'', ''g'', ''h'', ''i'', ''j'', ''k'', ''l''] initial_state) = Some [''[1] c'' @ [CHR 0x0A], ''[2] d'' @ [CHR 0x0A], ''[3] e'' @ [CHR 0x0A], ''[4] f'' @ [CHR 0x0A], ''[5] g'' @ [CHR 0x0A], ''[6] h'' @ [CHR 0x0A], ''[7] i'' @ [CHR 0x0A], ''[8] j'' @ [CHR 0x0A], ''[9] k'' @ [CHR 0x0A], ''[10] l'' @ [CHR 0x0A]]"
    using T [THEN conjunct1] by (simp only: e)
  have b: "history (record_all [''a'', ''b'', ''c'', ''d'', ''e'', ''f'', ''g'', ''h'', ''i'', ''j'', ''k'', ''l''] initial_state)
     ! history_index (record_all [''a'', ''b'', ''c'', ''d'', ''e'', ''f'', ''g'', ''h'', ''i'', ''j'', ''k'', ''l''] initial_state) = Some ''c''"
    using T [THEN conjunct2, THEN conjunct2, THEN conjunct2, THEN conjunct2, THEN mp, OF full,
        THEN conjunct1]
    by (simp only: h)
  show ?thesis by (intro conjI a b)
qed

section \<open>Properties of the dispatcher\<close>

lemma strchr_None_iff: "strchr s c = None \<longleftrightarrow> c \<notin> set s"
  by (induction s) auto

lemma strchr_Some_first:
  "strchr s c = Some j \<Longrightarrow> j < length s \<and> s ! j = c \<and> c \<notin> set (take j s)"
proof (induction s arbitrary: j)
  case Nil
  then show ?case by simp
next
  case (Cons a s)
  show ?case
  proof (cases "a = c")
    case True
    with Cons.prems show ?thesis by simp
  next
    case False
    with Cons.prems obtain k where k: "strchr s c = Some k" "j = Suc k" by auto
    from Cons.IH [OF k(1)] False show ?thesis by (simp add: k(2))
  qed
qed

lemma strstr_Some_first:
  "strstr s n = Some i \<Longrightarrow>
     take (length n) (drop i s) = n \<and> (\<forall>k<i. take (length n) (drop k s) \<noteq> n)"
proof (induction s arbitrary: i)
  case Nil
  then show ?case by (simp split: if_splits)
next
  case (Cons a s)
  show ?case
  proof (cases "take (length n) (a # s) = n")
    case True
    with Cons.prems show ?thesis by simp
  next
    case False
    with Cons.prems obtain k where k: "strstr s n = Some k" "i = Suc k" by auto
    from Cons.IH [OF k(1)] have h: "take (length n) (drop k s) = n"
      and m: "\<forall>l<k. take (length n) (drop l s) \<noteq> n" by simp_all
    have "\<forall>l<Suc k. take (length n) (drop l (a # s)) \<noteq> n"
    proof (intro allI impI)
      fix l assume "l < Suc k"
      then show "take (length n) (drop l (a # s)) \<noteq> n"
        using False m by (cases l) simp_all
    qed
    then show ?thesis using h by (simp add: k(2))
  qed
qed

lemma strstr_None_iff:
  "strstr s n = None \<longleftrightarrow> (\<forall>k\<le>length s. take (length n) (drop k s) \<noteq> n)"
proof (induction s)
  case Nil
  then show ?case by auto
next
  case (Cons a s)
  show ?case
  proof (cases "take (length n) (a # s) = n")
    case True
    then show ?thesis by auto
  next
    case False
    have "(\<forall>k\<le>length (a # s). take (length n) (drop k (a # s)) \<noteq> n)
        \<longleftrightarrow> (\<forall>k\<le>length s. take (length n) (drop k s) \<noteq> n)"
    proof
      assume l: "\<forall>k\<le>length (a # s). take (length n) (drop k (a # s)) \<noteq> n"
      show "\<forall>k\<le>length s. take (length n) (drop k s) \<noteq> n"
      proof (intro allI impI)
        fix k assume "k \<le> length s"
        then have "take (length n) (drop (Suc k) (a # s)) \<noteq> n" using l by (metis Suc_le_mono length_Cons)
        then show "take (length n) (drop k s) \<noteq> n" by simp
      qed
    next
      assume r: "\<forall>k\<le>length s. take (length n) (drop k s) \<noteq> n"
      show "\<forall>k\<le>length (a # s). take (length n) (drop k (a # s)) \<noteq> n"
      proof (intro allI impI)
        fix k assume "k \<le> length (a # s)"
        then show "take (length n) (drop k (a # s)) \<noteq> n"
          using False r by (cases k) simp_all
      qed
    qed
    then show ?thesis using False Cons.IH by simp
  qed
qed

lemma strcspn_amp: "take (strcspn line ''&'') line = before_amp line"
proof -
  have "take (length (takeWhile P line)) line = takeWhile P line" for P
    by (induction line) simp_all
  then show ?thesis by (simp add: strcspn_def before_amp_def)
qed

lemma before_amp_none: "CHR ''&'' \<notin> set line \<Longrightarrow> before_amp line = line"
  by (auto simp: before_amp_def)

lemma reach_dispatch:
  "(case line of [] \<Rightarrow> False | c # cs \<Rightarrow> c = CHR 0x0A) \<longleftrightarrow> take 1 line = [CHR 0x0A]"
  by (cases line) auto

lemma main_iteration_plain:
  assumes reach: "take 1 line \<noteq> [CHR 0x0A]"
    and na: "strstr line ''&&'' = None"
    and np: "strchr line (CHR ''|'') = None"
    and la: "length (stack_args os) = MAX_ARGS"
  shows "main_iteration os st line =
     (let st' = add_to_history line st;
          args = fst (parse_input (before_amp line) (stack_args os));
          toks = take (MAX_ARGS - 1) (spec_tokens (before_amp line));
          background = (if CHR ''&'' \<in> set line then 1 else 0)
      in if toks = [] then Some (st', [], Continue)
         else if hd toks = ''cd'' then
           Some (st', run_builtin_cd args (env_home os) (chdir_rc os) (getcwd_res os), Continue)
         else if hd toks = ''pwd'' then Some (st', run_builtin_pwd (getcwd_res os), Continue)
         else if hd toks = ''exit'' then Some (st', [], Break)
         else if hd toks = ''history'' then
           map_option (\<lambda>out. (st', map Printf out, Continue)) (show_history st')
         else Some (st', execute_command args background (fork1 os),
                    after (execute_command args background (fork1 os))))"
proof -
  let ?l = "if strchr line (CHR ''&'') \<noteq> None then take (strcspn line ''&'') line else line"
  have l: "?l = before_amp line"
    by (simp add: strchr_None_iff strcspn_amp before_amp_none)
  let ?T = "take (MAX_ARGS - 1) (spec_tokens (before_amp line))"
  have f: "fst (parse_input (before_amp line) (stack_args os)) ! 0
     = (case ?T of [] \<Rightarrow> None | t # ts \<Rightarrow> Some t)"
    by (rule parse_input_first [OF la])
  have r: "\<not> (case line of [] \<Rightarrow> False | c # cs \<Rightarrow> c = CHR 0x0A)"
    using reach by (simp add: reach_dispatch)
  show ?thesis
  proof (cases ?T)
    case Nil
    show ?thesis
      unfolding main_iteration_def Let_def l
      by (simp only: r if_False na np option.case f Nil list.case if_True refl)
  next
    case (Cons t ts)
    have b: "(strchr line (CHR ''&'') \<noteq> None) = (CHR ''&'' \<in> set line)"
      by (simp add: strchr_None_iff)
    show ?thesis
      unfolding main_iteration_def Let_def l
      by (simp only: r if_False na np option.case f Cons list.case b) simp
  qed
qed

lemma show_nat_digit: "\<exists>d r. d < 10 \<and> show_nat n = digit d # r"
proof (induction n rule: show_nat.induct)
  case (1 n)
  show ?case
  proof (cases "n < 10")
    case True
    then show ?thesis by (subst show_nat.simps) auto
  next
    case False
    with 1 obtain d r where "d < 10" "show_nat (n div 10) = digit d # r" by auto
    then show ?thesis using False by (subst show_nat.simps) auto
  qed
qed

lemma digit_not_B: "d < 10 \<Longrightarrow> digit d \<noteq> CHR ''B''"
proof
  assume d: "d < 10" and e: "digit d = CHR ''B''"
  have "of_char (digit d) = (48 + d) mod 256" by (simp add: digit_def)
  then have "(of_char (CHR ''B'') :: nat) = 48 + d" using d e by simp
  then show False using d by simp
qed

lemma history_line_not_bg: "history_line n c \<noteq> bg_line p"
proof -
  obtain d r where d: "d < 10" "show_nat n = digit d # r"
    using show_nat_digit by blast
  have "history_line n c ! 1 = digit d"
    by (simp add: history_line_def show_int_def d)
  moreover have "bg_line p ! 1 = CHR ''B''"
    by (simp add: bg_line_def)
  ultimately show ?thesis using digit_not_B [OF d(1)] by metis
qed

lemma numbered_lines: "l \<in> set (numbered n cs) \<Longrightarrow> \<exists>k c. l = history_line k c"
  by (induction cs arbitrary: n) auto

lemma forks_map_Printf [simp]: "forks (map Printf out) = []"
  by (induction out) (simp_all add: forks_def)

lemma prints_map_Printf [simp]: "prints (map Printf out) = out"
  by (induction out) (simp_all add: prints_def)

lemma forks_builtin_cd [simp]: "forks (run_builtin_cd args home rc cwd) = []"
  by (auto simp: run_builtin_cd_def forks_def Let_def split: option.split)

lemma prints_builtin_cd [simp]: "prints (run_builtin_cd args home rc cwd) = []"
  by (auto simp: run_builtin_cd_def prints_def Let_def split: option.split)

lemma forks_builtin_pwd [simp]: "forks (run_builtin_pwd cwd) = []"
  by (simp add: run_builtin_pwd_def forks_def split: option.split)

lemma run_builtin_no_child:
  assumes "run_builtin os st args = Some (t, f)" and "state_ok st"
  shows "forks t = [] \<and> f \<noteq> Gone \<and> (args ! 0 \<noteq> Some ''pwd'' \<longrightarrow> bg_line p \<notin> set (prints t))"
proof -
  consider (cd) "args ! 0 = Some ''cd''" | (pwd) "args ! 0 = Some ''pwd''"
    | (exit) "args ! 0 = Some ''exit''" | (history) "args ! 0 = Some ''history''"
    using assms(1) by (auto simp: run_builtin_def split: if_splits)
  then show ?thesis
  proof cases
    case cd
    with assms(1) show ?thesis by (auto simp: run_builtin_def)
  next
    case pwd
    with assms(1) show ?thesis by (auto simp: run_builtin_def)
  next
    case exit
    with assms(1) show ?thesis by (auto simp: run_builtin_def forks_def prints_def)
  next
    case history
    with assms(1) obtain out where o: "show_history st = Some out" "t = map Printf out" "f = Continue"
      by (auto simp: run_builtin_def)
    have "out = numbered 0 (somes (rotate (history_index st) (history st)))"
      using o(1) show_history_rotate [OF assms(2)] by simp
    then have "bg_line p \<notin> set out"
      using numbered_lines history_line_not_bg by metis
    then show ?thesis by (simp add: o)
  qed
qed

lemma run_builtin_returns:
  assumes "state_ok st" and "args ! 0 = Some name" and "name \<in> set builtin_names"
  shows "run_builtin os st args \<noteq> None"
  using assms show_history_returns [OF assms(1)]
  by (auto simp: run_builtin_def builtin_names_def)

text \<open>
  The loop body on a line without \<^verbatim>\<open>&&\<close> and \<^verbatim>\<open>|\<close>, by the tokens of the part before
  the first \<^verbatim>\<open>&\<close>.
\<close>

lemma main_iteration_tokens:
  assumes reach: "take 1 line \<noteq> [CHR 0x0A]"
    and na: "strstr line ''&&'' = None"
    and np: "strchr line (CHR ''|'') = None"
    and la: "length (stack_args os) = MAX_ARGS"
  defines "args \<equiv> fst (parse_input (before_amp line) (stack_args os))"
    and "toks \<equiv> take (MAX_ARGS - 1) (spec_tokens (before_amp line))"
    and "background \<equiv> (if CHR ''&'' \<in> set line then 1 else 0 :: int)"
  shows "argv args = toks"
    and "toks = [] \<Longrightarrow> main_iteration os st line = Some (add_to_history line st, [], Continue)"
    and "toks \<noteq> [] \<Longrightarrow> args ! 0 = Some (hd toks)"
    and "toks \<noteq> [] \<Longrightarrow> hd toks \<in> set builtin_names \<Longrightarrow>
           main_iteration os st line
             = map_option (\<lambda>(t, f). (add_to_history line st, t, f))
                 (run_builtin os (add_to_history line st) args)"
    and "toks \<noteq> [] \<Longrightarrow> hd toks \<notin> set builtin_names \<Longrightarrow>
           main_iteration os st line
             = Some (add_to_history line st, execute_command args background (fork1 os),
                     after (execute_command args background (fork1 os)))"
proof -
  note m = main_iteration_plain [OF reach na np la, of st, folded args_def toks_def background_def]
  show "argv args = toks"
    unfolding args_def toks_def by (rule argv_parse_input [OF la])
  have f: "args ! 0 = (case toks of [] \<Rightarrow> None | t # ts \<Rightarrow> Some t)"
    unfolding args_def toks_def by (rule parse_input_first [OF la])
  show "toks = [] \<Longrightarrow> main_iteration os st line = Some (add_to_history line st, [], Continue)"
    using m by (simp add: Let_def)
  show a0: "toks \<noteq> [] \<Longrightarrow> args ! 0 = Some (hd toks)"
    using f by (cases toks) simp_all
  show "toks \<noteq> [] \<Longrightarrow> hd toks \<in> set builtin_names \<Longrightarrow>
           main_iteration os st line
             = map_option (\<lambda>(t, f). (add_to_history line st, t, f))
                 (run_builtin os (add_to_history line st) args)"
    using m a0 by (auto simp: Let_def run_builtin_def builtin_names_def option.map_comp comp_def)
  show "toks \<noteq> [] \<Longrightarrow> hd toks \<notin> set builtin_names \<Longrightarrow>
           main_iteration os st line
             = Some (add_to_history line st, execute_command args background (fork1 os),
                     after (execute_command args background (fork1 os)))"
    using m by (auto simp: Let_def builtin_names_def)
qed

text \<open>
  Claim C3, with the tests for an empty command and for a built-in name applying to every
  line that has neither \<^verbatim>\<open>&&\<close> nor \<^verbatim>\<open>|\<close>.  For a line that does not start with a
  newline: if it contains \<^verbatim>\<open>&&\<close>, it is split at the first occurrence and the two parts
  go to \<^verbatim>\<open>handle_and\<close>; else if it contains \<^verbatim>\<open>|\<close>, it is split at the first occurrence
  and the two parts go to \<^verbatim>\<open>handle_pipe\<close>; else the part before the first \<^verbatim>\<open>&\<close> (the
  whole line if there is none) is tokenized, and then: with no token nothing is done;
  with a built-in name as first token the built-in runs; otherwise
  \<^verbatim>\<open>execute_command\<close> launches the tokens, not waiting if the line contains \<^verbatim>\<open>&\<close> and
  waiting if it does not.
\<close>

theorem dispatch_precedence:
  assumes reach: "take 1 line \<noteq> [CHR 0x0A]"
    and la: "length (stack_args os) = MAX_ARGS"
  shows
   "(strstr line ''&&'' = None \<longleftrightarrow> (\<forall>k\<le>length line. take 2 (drop k line) \<noteq> ''&&'')) \<and>
    (strchr line (CHR ''|'') = None \<longleftrightarrow> CHR ''|'' \<notin> set line) \<and>
    (strstr line ''&&'' = Some i \<longrightarrow>
       take 2 (drop i line) = ''&&'' \<and> (\<forall>k<i. take 2 (drop k line) \<noteq> ''&&'') \<and>
       main_iteration os st line =
         Some (add_to_history line st,
               handle_and (take i line) (drop (i + 2) line) (stack_args os)
                 (fork1 os) (wstatus os) (fork2 os),
               after (handle_and (take i line) (drop (i + 2) line) (stack_args os)
                 (fork1 os) (wstatus os) (fork2 os)))) \<and>
    (strstr line ''&&'' = None \<and> strchr line (CHR ''|'') = Some j \<longrightarrow>
       line ! j = CHR ''|'' \<and> CHR ''|'' \<notin> set (take j line) \<and>
       main_iteration os st line =
         Some (add_to_history line st,
               handle_pipe (take j line) (drop (j + 1) line) (stack_args os)
                 (pipe_rd os) (pipe_wr os) (fork1 os) (fork2 os),
               after (handle_pipe (take j line) (drop (j + 1) line) (stack_args os)
                 (pipe_rd os) (pipe_wr os) (fork1 os) (fork2 os)))) \<and>
    (strstr line ''&&'' = None \<and> strchr line (CHR ''|'') = None \<longrightarrow>
       argv (cmd_args os line) = cmd_tokens line \<and>
       (cmd_tokens line = [] \<longrightarrow>
          main_iteration os st line = Some (add_to_history line st, [], Continue)) \<and>
       (cmd_tokens line \<noteq> [] \<and> hd (cmd_tokens line) \<in> set builtin_names \<longrightarrow>
          main_iteration os st line =
            map_option (\<lambda>(t, f). (add_to_history line st, t, f))
              (run_builtin os (add_to_history line st) (cmd_args os line))) \<and>
       (cmd_tokens line \<noteq> [] \<and> hd (cmd_tokens line) \<notin> set builtin_names \<longrightarrow>
          main_iteration os st line =
            Some (add_to_history line st,
                  execute_command (cmd_args os line) (if CHR ''&'' \<in> set line then 1 else 0)
                    (fork1 os),
                  after (execute_command (cmd_args os line)
                    (if CHR ''&'' \<in> set line then 1 else 0) (fork1 os)))))"
proof -
  have r: "\<not> (case line of [] \<Rightarrow> False | c # cs \<Rightarrow> c = CHR 0x0A)"
    using reach by (simp add: reach_dispatch)
  have a: "strstr line ''&&'' = None \<longleftrightarrow> (\<forall>k\<le>length line. take 2 (drop k line) \<noteq> ''&&'')"
  proof -
    have l2: "length ''&&'' = 2" by simp
    show ?thesis using strstr_None_iff [of line "''&&''"] unfolding l2 .
  qed
  have b: "strchr line (CHR ''|'') = None \<longleftrightarrow> CHR ''|'' \<notin> set line"
    by (rule strchr_None_iff)
  have c: "strstr line ''&&'' = Some i \<longrightarrow>
       take 2 (drop i line) = ''&&'' \<and> (\<forall>k<i. take 2 (drop k line) \<noteq> ''&&'') \<and>
       main_iteration os st line =
         Some (add_to_history line st,
               handle_and (take i line) (drop (i + 2) line) (stack_args os)
                 (fork1 os) (wstatus os) (fork2 os),
               after (handle_and (take i line) (drop (i + 2) line) (stack_args os)
                 (fork1 os) (wstatus os) (fork2 os)))"
  proof
    assume s: "strstr line ''&&'' = Some i"
    have l2: "length ''&&'' = 2" by simp
    from strstr_Some_first [OF s, unfolded l2] have f: "take 2 (drop i line) = ''&&''"
      "\<forall>k<i. take 2 (drop k line) \<noteq> ''&&''" by blast+
    have "main_iteration os st line =
         Some (add_to_history line st,
               handle_and (take i line) (drop (i + 2) line) (stack_args os)
                 (fork1 os) (wstatus os) (fork2 os),
               after (handle_and (take i line) (drop (i + 2) line) (stack_args os)
                 (fork1 os) (wstatus os) (fork2 os)))"
      unfolding main_iteration_def Let_def
      by (simp only: r if_False s option.case)
    with f show "take 2 (drop i line) = ''&&'' \<and> (\<forall>k<i. take 2 (drop k line) \<noteq> ''&&'') \<and>
       main_iteration os st line =
         Some (add_to_history line st,
               handle_and (take i line) (drop (i + 2) line) (stack_args os)
                 (fork1 os) (wstatus os) (fork2 os),
               after (handle_and (take i line) (drop (i + 2) line) (stack_args os)
                 (fork1 os) (wstatus os) (fork2 os)))"
      by blast
  qed
  have d: "strstr line ''&&'' = None \<and> strchr line (CHR ''|'') = Some j \<longrightarrow>
       line ! j = CHR ''|'' \<and> CHR ''|'' \<notin> set (take j line) \<and>
       main_iteration os st line =
         Some (add_to_history line st,
               handle_pipe (take j line) (drop (j + 1) line) (stack_args os)
                 (pipe_rd os) (pipe_wr os) (fork1 os) (fork2 os),
               after (handle_pipe (take j line) (drop (j + 1) line) (stack_args os)
                 (pipe_rd os) (pipe_wr os) (fork1 os) (fork2 os)))"
  proof (intro impI, elim conjE)
    assume n: "strstr line ''&&'' = None" and s: "strchr line (CHR ''|'') = Some j"
    from strchr_Some_first [OF s] have f: "line ! j = CHR ''|''" "CHR ''|'' \<notin> set (take j line)"
      by simp_all
    have "main_iteration os st line =
         Some (add_to_history line st,
               handle_pipe (take j line) (drop (j + 1) line) (stack_args os)
                 (pipe_rd os) (pipe_wr os) (fork1 os) (fork2 os),
               after (handle_pipe (take j line) (drop (j + 1) line) (stack_args os)
                 (pipe_rd os) (pipe_wr os) (fork1 os) (fork2 os)))"
      unfolding main_iteration_def Let_def
      by (simp only: r if_False n s option.case)
    with f show "line ! j = CHR ''|'' \<and> CHR ''|'' \<notin> set (take j line) \<and>
       main_iteration os st line =
         Some (add_to_history line st,
               handle_pipe (take j line) (drop (j + 1) line) (stack_args os)
                 (pipe_rd os) (pipe_wr os) (fork1 os) (fork2 os),
               after (handle_pipe (take j line) (drop (j + 1) line) (stack_args os)
                 (pipe_rd os) (pipe_wr os) (fork1 os) (fork2 os)))"
      by blast
  qed
  have e: "strstr line ''&&'' = None \<and> strchr line (CHR ''|'') = None \<longrightarrow>
       argv (cmd_args os line) = cmd_tokens line \<and>
       (cmd_tokens line = [] \<longrightarrow>
          main_iteration os st line = Some (add_to_history line st, [], Continue)) \<and>
       (cmd_tokens line \<noteq> [] \<and> hd (cmd_tokens line) \<in> set builtin_names \<longrightarrow>
          main_iteration os st line =
            map_option (\<lambda>(t, f). (add_to_history line st, t, f))
              (run_builtin os (add_to_history line st) (cmd_args os line))) \<and>
       (cmd_tokens line \<noteq> [] \<and> hd (cmd_tokens line) \<notin> set builtin_names \<longrightarrow>
          main_iteration os st line =
            Some (add_to_history line st,
                  execute_command (cmd_args os line) (if CHR ''&'' \<in> set line then 1 else 0)
                    (fork1 os),
                  after (execute_command (cmd_args os line)
                    (if CHR ''&'' \<in> set line then 1 else 0) (fork1 os))))"
  proof (intro impI, elim conjE)
    assume n: "strstr line ''&&'' = None" and p: "strchr line (CHR ''|'') = None"
    note m = main_iteration_tokens [OF reach n p la, folded cmd_args_def cmd_tokens_def]
    show "argv (cmd_args os line) = cmd_tokens line \<and>
       (cmd_tokens line = [] \<longrightarrow>
          main_iteration os st line = Some (add_to_history line st, [], Continue)) \<and>
       (cmd_tokens line \<noteq> [] \<and> hd (cmd_tokens line) \<in> set builtin_names \<longrightarrow>
          main_iteration os st line =
            map_option (\<lambda>(t, f). (add_to_history line st, t, f))
              (run_builtin os (add_to_history line st) (cmd_args os line))) \<and>
       (cmd_tokens line \<noteq> [] \<and> hd (cmd_tokens line) \<notin> set builtin_names \<longrightarrow>
          main_iteration os st line =
            Some (add_to_history line st,
                  execute_command (cmd_args os line) (if CHR ''&'' \<in> set line then 1 else 0)
                    (fork1 os),
                  after (execute_command (cmd_args os line)
                    (if CHR ''&'' \<in> set line then 1 else 0) (fork1 os))))"
      using m(1,2,4,5) by blast
  qed
  show ?thesis by (intro conjI a b c d e)
qed

text \<open>
  Claim C9, with the outcome given by the tokens of the prefix.  For a line that contains
  no \<^verbatim>\<open>&&\<close> and no \<^verbatim>\<open>|\<close> but an \<^verbatim>\<open>&\<close> anywhere, only the text before the first
  \<^verbatim>\<open>&\<close> is tokenized, so what follows it is discarded.  If the prefix has a first token
  that is no built-in name, it is launched with the background flag set: after a
  successful \<^verbatim>\<open>fork\<close> the process id line is printed and nothing is waited for.  A
  prefix without tokens is ignored, and a prefix whose first token is a built-in name
  runs the built-in.
\<close>

theorem background_marker_anywhere:
  assumes reach: "take 1 line \<noteq> [CHR 0x0A]"
    and la: "length (stack_args os) = MAX_ARGS"
    and na: "strstr line ''&&'' = None"
    and np: "CHR ''|'' \<notin> set line"
    and amp: "CHR ''&'' \<in> set line"
  shows
   "cmd_tokens line = take (MAX_ARGS - 1) (spec_tokens (takeWhile (\<lambda>c. c \<noteq> CHR ''&'') line)) \<and>
    argv (cmd_args os line) = cmd_tokens line \<and>
    (cmd_tokens line = [] \<longrightarrow>
       main_iteration os st line = Some (add_to_history line st, [], Continue)) \<and>
    (cmd_tokens line \<noteq> [] \<and> hd (cmd_tokens line) \<in> set builtin_names \<longrightarrow>
       main_iteration os st line =
         map_option (\<lambda>(t, f). (add_to_history line st, t, f))
           (run_builtin os (add_to_history line st) (cmd_args os line))) \<and>
    (cmd_tokens line \<noteq> [] \<and> hd (cmd_tokens line) \<notin> set builtin_names \<longrightarrow>
       main_iteration os st line =
         Some (add_to_history line st, execute_command (cmd_args os line) 1 (fork1 os),
               after (execute_command (cmd_args os line) 1 (fork1 os))) \<and>
       (0 < fork1 os \<longrightarrow>
          main_iteration os st line =
            Some (add_to_history line st,
                  [Fork (fork1 os), Printf (bg_line (fork1 os))], Continue)))"
proof -
  have p: "strchr line (CHR ''|'') = None" using np by (simp add: strchr_None_iff)
  note m = main_iteration_tokens [OF reach na p la, folded cmd_args_def cmd_tokens_def]
  have t: "cmd_tokens line = take (MAX_ARGS - 1) (spec_tokens (takeWhile (\<lambda>c. c \<noteq> CHR ''&'') line))"
    by (simp add: cmd_tokens_def before_amp_def)
  have x: "cmd_tokens line \<noteq> [] \<and> hd (cmd_tokens line) \<notin> set builtin_names \<longrightarrow>
       main_iteration os st line =
         Some (add_to_history line st, execute_command (cmd_args os line) 1 (fork1 os),
               after (execute_command (cmd_args os line) 1 (fork1 os))) \<and>
       (0 < fork1 os \<longrightarrow>
          main_iteration os st line =
            Some (add_to_history line st,
                  [Fork (fork1 os), Printf (bg_line (fork1 os))], Continue))"
  proof (intro impI, elim conjE)
    assume h: "cmd_tokens line \<noteq> []" "hd (cmd_tokens line) \<notin> set builtin_names"
    have e: "main_iteration os st line =
         Some (add_to_history line st, execute_command (cmd_args os line) 1 (fork1 os),
               after (execute_command (cmd_args os line) 1 (fork1 os)))"
      using m(5) [OF h] amp by simp
    have "0 < fork1 os \<longrightarrow> execute_command (cmd_args os line) 1 (fork1 os)
        = [Fork (fork1 os), Printf (bg_line (fork1 os))]"
      by (simp add: execute_command_def)
    moreover have "after [Fork (fork1 os), Printf (bg_line (fork1 os))] = Continue"
      by (simp add: after_def)
    ultimately show "main_iteration os st line =
         Some (add_to_history line st, execute_command (cmd_args os line) 1 (fork1 os),
               after (execute_command (cmd_args os line) 1 (fork1 os))) \<and>
       (0 < fork1 os \<longrightarrow>
          main_iteration os st line =
            Some (add_to_history line st,
                  [Fork (fork1 os), Printf (bg_line (fork1 os))], Continue))"
      using e by simp
  qed
  show ?thesis using t m(1,2,4) x by blast
qed

text \<open>
  Claim C10, for the lines that reach the built-in test.  For a line without \<^verbatim>\<open>&&\<close> and
  \<^verbatim>\<open>|\<close> whose first token, taken from the part before the first \<^verbatim>\<open>&\<close>, is one of
  \<^verbatim>\<open>cd\<close>, \<^verbatim>\<open>pwd\<close>, \<^verbatim>\<open>exit\<close>, \<^verbatim>\<open>history\<close>, whether or not the line contains \<^verbatim>\<open>&\<close>:
  the pass ends and the built-in has run in the calling process.  \<^verbatim>\<open>cd\<close> changes to the
  second token, or to the value of \<^verbatim>\<open>HOME\<close> when there is none, and on success sets
  \<^verbatim>\<open>PWD\<close>; \<^verbatim>\<open>pwd\<close> prints what \<^verbatim>\<open>getcwd\<close> answered and nothing else; \<^verbatim>\<open>exit\<close> makes no
  call and breaks the loop; \<^verbatim>\<open>history\<close> prints the listing of \<^verbatim>\<open>show_history\<close>.  No
  \<^verbatim>\<open>fork\<close> is called, and \<^verbatim>\<open>cd\<close>, \<^verbatim>\<open>exit\<close> and \<^verbatim>\<open>history\<close> print no process id line.
\<close>

theorem builtin_before_background:
  assumes reach: "take 1 line \<noteq> [CHR 0x0A]"
    and la: "length (stack_args os) = MAX_ARGS"
    and na: "strstr line ''&&'' = None"
    and np: "CHR ''|'' \<notin> set line"
    and ok: "state_ok st"
    and tk: "cmd_tokens line \<noteq> []"
    and bi: "hd (cmd_tokens line) \<in> set builtin_names"
  shows
   "\<exists>t f. main_iteration os st line = Some (add_to_history line st, t, f) \<and>
      run_builtin os (add_to_history line st) (cmd_args os line) = Some (t, f) \<and>
      forks t = [] \<and> f \<noteq> Gone \<and>
      (hd (cmd_tokens line) = ''exit'' \<longrightarrow> t = [] \<and> f = Break) \<and>
      (hd (cmd_tokens line) = ''cd'' \<longrightarrow> prints t = [] \<and> f = Continue) \<and>
      (hd (cmd_tokens line) = ''pwd'' \<longrightarrow> t = run_builtin_pwd (getcwd_res os) \<and> f = Continue) \<and>
      (hd (cmd_tokens line) = ''history'' \<longrightarrow>
         show_history (add_to_history line st) = Some (prints t) \<and> f = Continue) \<and>
      (hd (cmd_tokens line) \<noteq> ''pwd'' \<longrightarrow> bg_line p \<notin> set (prints t)) \<and>
      (hd (cmd_tokens line) = ''cd'' \<longrightarrow>
         t = (if 2 \<le> length (cmd_tokens line) then [Chdir (Some (cmd_tokens line ! 1))]
              else [Getenv ''HOME'', Chdir (env_home os)]) @
             (if chdir_rc os \<noteq> 0 then [Perror ''cd error'']
              else Getcwd # (case getcwd_res os of Some d \<Rightarrow> [Setenv ''PWD'' d] | None \<Rightarrow> []))) \<and>
      (hd (cmd_tokens line) = ''pwd'' \<longrightarrow>
         t = Getcwd # (case getcwd_res os of Some d \<Rightarrow> [Printf (d @ [CHR 0x0A])]
                       | None \<Rightarrow> [Perror ''pwd error''])) \<and>
      (hd (cmd_tokens line) = ''history'' \<longrightarrow> t = map Printf (prints t))"
proof -
  have pp: "strchr line (CHR ''|'') = None" using np by (simp add: strchr_None_iff)
  note m = main_iteration_tokens [OF reach na pp la, folded cmd_args_def cmd_tokens_def]
  let ?st = "add_to_history line st" and ?args = "cmd_args os line"
  have ok': "state_ok ?st" by (rule state_ok_add_to_history [OF ok])
  have a0: "?args ! 0 = Some (hd (cmd_tokens line))" by (rule m(3) [OF tk])
  have a1: "?args ! 1
      = (if 2 \<le> length (cmd_tokens line) then Some (cmd_tokens line ! 1) else None)"
    unfolding cmd_args_def cmd_tokens_def
    by (rule parse_input_second [OF la tk [unfolded cmd_tokens_def]])
  from run_builtin_returns [OF ok' a0 bi, of os]
  obtain t f where rb: "run_builtin os ?st ?args = Some (t, f)" by auto
  have mi: "main_iteration os st line = Some (?st, t, f)"
    using m(4) [OF tk bi] rb by simp
  note nc = run_builtin_no_child [OF rb ok', of p]
  have ex: "hd (cmd_tokens line) = ''exit'' \<longrightarrow> t = [] \<and> f = Break"
    using rb a0 by (auto simp: run_builtin_def)
  have cd: "hd (cmd_tokens line) = ''cd'' \<longrightarrow> prints t = [] \<and> f = Continue"
    using rb a0 by (auto simp: run_builtin_def)
  have pw: "hd (cmd_tokens line) = ''pwd'' \<longrightarrow> t = run_builtin_pwd (getcwd_res os) \<and> f = Continue"
    using rb a0 by (auto simp: run_builtin_def)
  have hi: "hd (cmd_tokens line) = ''history'' \<longrightarrow>
         show_history ?st = Some (prints t) \<and> f = Continue"
    using rb a0 by (auto simp: run_builtin_def)
  have bg: "hd (cmd_tokens line) \<noteq> ''pwd'' \<longrightarrow> bg_line p \<notin> set (prints t)"
    using nc a0 by simp
  have cdt: "hd (cmd_tokens line) = ''cd'' \<longrightarrow>
         t = (if 2 \<le> length (cmd_tokens line) then [Chdir (Some (cmd_tokens line ! 1))]
              else [Getenv ''HOME'', Chdir (env_home os)]) @
             (if chdir_rc os \<noteq> 0 then [Perror ''cd error'']
              else Getcwd # (case getcwd_res os of Some d \<Rightarrow> [Setenv ''PWD'' d] | None \<Rightarrow> []))"
  proof
    assume "hd (cmd_tokens line) = ''cd''"
    with rb a0 have "t = run_builtin_cd ?args (env_home os) (chdir_rc os) (getcwd_res os)"
      by (auto simp: run_builtin_def)
    then have t: "t =
        (if ?args ! 1 = None then [Getenv ''HOME''] else []) @
        Chdir (if ?args ! 1 = None then env_home os else ?args ! 1) #
        (if chdir_rc os \<noteq> 0 then [Perror ''cd error'']
         else Getcwd # (case getcwd_res os of Some d \<Rightarrow> [Setenv ''PWD'' d] | None \<Rightarrow> []))"
      by (simp only: run_builtin_cd_def Let_def)
    show "t = (if 2 \<le> length (cmd_tokens line) then [Chdir (Some (cmd_tokens line ! 1))]
              else [Getenv ''HOME'', Chdir (env_home os)]) @
             (if chdir_rc os \<noteq> 0 then [Perror ''cd error'']
              else Getcwd # (case getcwd_res os of Some d \<Rightarrow> [Setenv ''PWD'' d] | None \<Rightarrow> []))"
    proof (cases "2 \<le> length (cmd_tokens line)")
      case True
      then have "?args ! 1 = Some (cmd_tokens line ! 1)" by (simp only: a1 if_True)
      then show ?thesis using True by (subst t) simp
    next
      case False
      then have "?args ! 1 = None" by (simp only: a1 if_False)
      then show ?thesis using False by (subst t) simp
    qed
  qed
  have pwt: "hd (cmd_tokens line) = ''pwd'' \<longrightarrow>
         t = Getcwd # (case getcwd_res os of Some d \<Rightarrow> [Printf (d @ [CHR 0x0A])]
                       | None \<Rightarrow> [Perror ''pwd error''])"
    using pw by (simp add: run_builtin_pwd_def)
  have hit: "hd (cmd_tokens line) = ''history'' \<longrightarrow> t = map Printf (prints t)"
    using rb a0 by (auto simp: run_builtin_def)
  show ?thesis using mi rb nc ex cd pw hi bg cdt pwt hit by blast
qed

text \<open>
  The line \<^verbatim>\<open>history & | x\<close> has the built-in name \<^verbatim>\<open>history\<close> as the first token before
  its \<^verbatim>\<open>&\<close>, but it contains \<^verbatim>\<open>|\<close>, which the loop body tests first: the line goes to
  \<^verbatim>\<open>handle_pipe\<close>, and two children are forked.
\<close>

theorem builtin_behind_pipe_counterexample:
  "cmd_tokens (''history & | x'' @ [CHR 0x0A]) = [''history''] \<and>
   strchr (''history & | x'' @ [CHR 0x0A]) (CHR ''&'') = Some 8 \<and>
   main_iteration sample_answers initial_state (''history & | x'' @ [CHR 0x0A])
     = Some (add_to_history (''history & | x'' @ [CHR 0x0A]) initial_state,
             [Pipe 3 4, Fork 41, Fork 42, Close 3, Close 4, Waitpid 41 False, Waitpid 42 False],
             Continue) \<and>
   forks [Pipe 3 4, Fork 41, Fork 42, Close 3, Close 4, Waitpid 41 False, Waitpid 42 False]
     = [41, 42]"
  by code_simp

lemma sample_args: "length (stack_args sample_answers) = MAX_ARGS"
  by (simp add: sample_answers_def junk_args_def MAX_ARGS_def)

theorem dispatch_precedence_witness:
  "main_iteration sample_answers initial_state (''gcc x && ./a.out'' @ [CHR 0x0A])
     = Some (add_to_history (''gcc x && ./a.out'' @ [CHR 0x0A]) initial_state,
             [Fork 41, Waitpid 41 True, Fork 42, Waitpid 42 False], Continue) \<and>
   main_iteration sample_answers initial_state (''ls | wc'' @ [CHR 0x0A])
     = Some (add_to_history (''ls | wc'' @ [CHR 0x0A]) initial_state,
             [Pipe 3 4, Fork 41, Fork 42, Close 3, Close 4, Waitpid 41 False, Waitpid 42 False],
             Continue) \<and>
   main_iteration sample_answers initial_state (''ls -l &'' @ [CHR 0x0A])
     = Some (add_to_history (''ls -l &'' @ [CHR 0x0A]) initial_state,
             [Fork 41, Printf (''[BG] Process ID: 41'' @ [CHR 0x0A])], Continue) \<and>
   main_iteration sample_answers initial_state (''ls -l'' @ [CHR 0x0A])
     = Some (add_to_history (''ls -l'' @ [CHR 0x0A]) initial_state,
             [Fork 41, Waitpid 41 False], Continue) \<and>
   main_iteration sample_answers initial_state (''cd /usr'' @ [CHR 0x0A])
     = Some (add_to_history (''cd /usr'' @ [CHR 0x0A]) initial_state,
             [Chdir (Some ''/usr''), Getcwd, Setenv ''PWD'' ''/tmp''], Continue) \<and>
   main_iteration sample_answers initial_state ('' '' @ [CHR 0x0A])
     = Some (add_to_history ('' '' @ [CHR 0x0A]) initial_state, [], Continue)"
proof -
  note la = sample_args
  let ?A = "''gcc x && ./a.out'' @ [CHR 0x0A]"
  have rA: "take 1 ?A \<noteq> [CHR 0x0A]" by simp
  have sA: "strstr ?A ''&&'' = Some 6" by code_simp
  have eA: "Some (add_to_history ?A initial_state,
               handle_and (take 6 ?A) (drop (6 + 2) ?A) (stack_args sample_answers)
                 (fork1 sample_answers) (wstatus sample_answers) (fork2 sample_answers),
               after (handle_and (take 6 ?A) (drop (6 + 2) ?A) (stack_args sample_answers)
                 (fork1 sample_answers) (wstatus sample_answers) (fork2 sample_answers)))
     = Some (add_to_history ?A initial_state,
             [Fork 41, Waitpid 41 True, Fork 42, Waitpid 42 False], Continue)"
    by code_simp
  note TA = dispatch_precedence [OF rA la, where i = 6 and st = initial_state]
  have A: "main_iteration sample_answers initial_state ?A
     = Some (add_to_history ?A initial_state,
             [Fork 41, Waitpid 41 True, Fork 42, Waitpid 42 False], Continue)"
    by (rule trans [OF TA [THEN conjunct2, THEN conjunct2, THEN conjunct1, THEN mp, OF sA,
            THEN conjunct2, THEN conjunct2] eA])
  let ?B = "''ls | wc'' @ [CHR 0x0A]"
  have rB: "take 1 ?B \<noteq> [CHR 0x0A]" by simp
  have sB: "strstr ?B ''&&'' = None \<and> strchr ?B (CHR ''|'') = Some 3" by code_simp
  have eB: "Some (add_to_history ?B initial_state,
               handle_pipe (take 3 ?B) (drop (3 + 1) ?B) (stack_args sample_answers)
                 (pipe_rd sample_answers) (pipe_wr sample_answers)
                 (fork1 sample_answers) (fork2 sample_answers),
               after (handle_pipe (take 3 ?B) (drop (3 + 1) ?B) (stack_args sample_answers)
                 (pipe_rd sample_answers) (pipe_wr sample_answers)
                 (fork1 sample_answers) (fork2 sample_answers)))
     = Some (add_to_history ?B initial_state,
             [Pipe 3 4, Fork 41, Fork 42, Close 3, Close 4, Waitpid 41 False, Waitpid 42 False],
             Continue)"
    by code_simp
  note TB = dispatch_precedence [OF rB la, where j = 3 and st = initial_state]
  have B: "main_iteration sample_answers initial_state ?B
     = Some (add_to_history ?B initial_state,
             [Pipe 3 4, Fork 41, Fork 42, Close 3, Close 4, Waitpid 41 False, Waitpid 42 False],
             Continue)"
    by (rule trans [OF TB [THEN conjunct2, THEN conjunct2, THEN conjunct2, THEN conjunct1,
            THEN mp, OF sB, THEN conjunct2, THEN conjunct2] eB])
  let ?C = "''ls -l &'' @ [CHR 0x0A]"
  have rC: "take 1 ?C \<noteq> [CHR 0x0A]" by simp
  have sC: "strstr ?C ''&&'' = None \<and> strchr ?C (CHR ''|'') = None" by code_simp
  have tC: "cmd_tokens ?C \<noteq> [] \<and> hd (cmd_tokens ?C) \<notin> set builtin_names" by code_simp
  have eC: "Some (add_to_history ?C initial_state,
                  execute_command (cmd_args sample_answers ?C)
                    (if CHR ''&'' \<in> set ?C then 1 else 0) (fork1 sample_answers),
                  after (execute_command (cmd_args sample_answers ?C)
                    (if CHR ''&'' \<in> set ?C then 1 else 0) (fork1 sample_answers)))
     = Some (add_to_history ?C initial_state,
             [Fork 41, Printf (''[BG] Process ID: 41'' @ [CHR 0x0A])], Continue)"
    by code_simp
  note TC = dispatch_precedence [OF rC la, where st = initial_state]
  have C: "main_iteration sample_answers initial_state ?C
     = Some (add_to_history ?C initial_state,
             [Fork 41, Printf (''[BG] Process ID: 41'' @ [CHR 0x0A])], Continue)"
    by (rule trans [OF TC [THEN conjunct2, THEN conjunct2, THEN conjunct2, THEN conjunct2,
            THEN mp, OF sC, THEN conjunct2, THEN conjunct2, THEN conjunct2, THEN mp, OF tC] eC])
  let ?D = "''ls -l'' @ [CHR 0x0A]"
  have rD: "take 1 ?D \<noteq> [CHR 0x0A]" by simp
  have sD: "strstr ?D ''&&'' = None \<and> strchr ?D (CHR ''|'') = None" by code_simp
  have tD: "cmd_tokens ?D \<noteq> [] \<and> hd (cmd_tokens ?D) \<notin> set builtin_names" by code_simp
  have eD: "Some (add_to_history ?D initial_state,
                  execute_command (cmd_args sample_answers ?D)
                    (if CHR ''&'' \<in> set ?D then 1 else 0) (fork1 sample_answers),
                  after (execute_command (cmd_args sample_answers ?D)
                    (if CHR ''&'' \<in> set ?D then 1 else 0) (fork1 sample_answers)))
     = Some (add_to_history ?D initial_state, [Fork 41, Waitpid 41 False], Continue)"
    by code_simp
  note TD = dispatch_precedence [OF rD la, where st = initial_state]
  have D: "main_iteration sample_answers initial_state ?D
     = Some (add_to_history ?D initial_state, [Fork 41, Waitpid 41 False], Continue)"
    by (rule trans [OF TD [THEN conjunct2, THEN conjunct2, THEN conjunct2, THEN conjunct2,
            THEN mp, OF sD, THEN conjunct2, THEN conjunct2, THEN conjunct2, THEN mp, OF tD] eD])
  let ?E = "''cd /usr'' @ [CHR 0x0A]"
  have rE: "take 1 ?E \<noteq> [CHR 0x0A]" by simp
  have sE: "strstr ?E ''&&'' = None \<and> strchr ?E (CHR ''|'') = None" by code_simp
  have tE: "cmd_tokens ?E \<noteq> [] \<and> hd (cmd_tokens ?E) \<in> set builtin_names" by code_simp
  have eE: "map_option (\<lambda>(t, f). (add_to_history ?E initial_state, t, f))
              (run_builtin sample_answers (add_to_history ?E initial_state)
                 (cmd_args sample_answers ?E))
     = Some (add_to_history ?E initial_state,
             [Chdir (Some ''/usr''), Getcwd, Setenv ''PWD'' ''/tmp''], Continue)"
    by code_simp
  note TE = dispatch_precedence [OF rE la, where st = initial_state]
  have E: "main_iteration sample_answers initial_state ?E
     = Some (add_to_history ?E initial_state,
             [Chdir (Some ''/usr''), Getcwd, Setenv ''PWD'' ''/tmp''], Continue)"
    by (rule trans [OF TE [THEN conjunct2, THEN conjunct2, THEN conjunct2, THEN conjunct2,
            THEN mp, OF sE, THEN conjunct2, THEN conjunct2, THEN conjunct1, THEN mp, OF tE] eE])
  let ?F = "'' '' @ [CHR 0x0A]"
  have rF: "take 1 ?F \<noteq> [CHR 0x0A]" by simp
  have sF: "strstr ?F ''&&'' = None \<and> strchr ?F (CHR ''|'') = None" by code_simp
  have tF: "cmd_tokens ?F = []" by code_simp
  note TF = dispatch_precedence [OF rF la, where st = initial_state]
  have F: "main_iteration sample_answers initial_state ?F
     = Some (add_to_history ?F initial_state, [], Continue)"
    by (rule TF [THEN conjunct2, THEN conjunct2, THEN conjunct2, THEN conjunct2,
            THEN mp, OF sF, THEN conjunct2, THEN conjunct1, THEN mp, OF tF])
  show ?thesis by (intro conjI A B C D E F)
qed

text \<open>
  The line \<^verbatim>\<open>cd &\<close> has no \<^verbatim>\<open>&&\<close> and no \<^verbatim>\<open>|\<close> but an \<^verbatim>\<open>&\<close>; the loop body does not
  launch \<^verbatim>\<open>cd\<close> in non-waiting mode, which would be a \<^verbatim>\<open>fork\<close> and the process id
  line, but changes the directory in the shell itself.
\<close>

theorem dispatch_builtin_in_background_counterexample:
  "strstr (''cd &'' @ [CHR 0x0A]) ''&&'' = None \<and>
   strchr (''cd &'' @ [CHR 0x0A]) (CHR ''|'') = None \<and>
   strchr (''cd &'' @ [CHR 0x0A]) (CHR ''&'') = Some 3 \<and>
   main_iteration sample_answers initial_state (''cd &'' @ [CHR 0x0A])
     \<noteq> Some (add_to_history (''cd &'' @ [CHR 0x0A]) initial_state,
             execute_command (fst (parse_input ''cd '' (stack_args sample_answers))) 1
               (fork1 sample_answers),
             Continue) \<and>
   execute_command (fst (parse_input ''cd '' (stack_args sample_answers))) 1
       (fork1 sample_answers)
     = [Fork 41, Printf (''[BG] Process ID: 41'' @ [CHR 0x0A])] \<and>
   main_iteration sample_answers initial_state (''cd &'' @ [CHR 0x0A])
     = Some (add_to_history (''cd &'' @ [CHR 0x0A]) initial_state,
             [Getenv ''HOME'', Chdir (Some ''/root''), Getcwd, Setenv ''PWD'' ''/tmp''],
             Continue)"
  by code_simp

text \<open>
  The line \<^verbatim>\<open>pwd&x\<close> has its \<^verbatim>\<open>&\<close> inside a word; the prefix \<^verbatim>\<open>pwd\<close> is not launched in
  the background: the built-in prints the directory and no \<^verbatim>\<open>fork\<close> is called.
\<close>

theorem background_prefix_builtin_counterexample:
  "strstr (''pwd&x'' @ [CHR 0x0A]) ''&&'' = None \<and>
   strchr (''pwd&x'' @ [CHR 0x0A]) (CHR ''|'') = None \<and>
   strchr (''pwd&x'' @ [CHR 0x0A]) (CHR ''&'') = Some 3 \<and>
   main_iteration sample_answers initial_state (''pwd&x'' @ [CHR 0x0A])
     \<noteq> Some (add_to_history (''pwd&x'' @ [CHR 0x0A]) initial_state,
             execute_command (fst (parse_input ''pwd'' (stack_args sample_answers))) 1
               (fork1 sample_answers),
             Continue) \<and>
   main_iteration sample_answers initial_state (''pwd&x'' @ [CHR 0x0A])
     = Some (add_to_history (''pwd&x'' @ [CHR 0x0A]) initial_state,
             [Getcwd, Printf (''/tmp'' @ [CHR 0x0A])], Continue) \<and>
   forks [Getcwd, Printf (''/tmp'' @ [CHR 0x0A])] = []"
  by code_simp

theorem background_marker_anywhere_witness:
  "cmd_tokens (''sleep 5&echo hi'' @ [CHR 0x0A]) = [''sleep'', ''5''] \<and>
   main_iteration sample_answers initial_state (''sleep 5&echo hi'' @ [CHR 0x0A])
     = Some (add_to_history (''sleep 5&echo hi'' @ [CHR 0x0A]) initial_state,
             [Fork 41, Printf (''[BG] Process ID: 41'' @ [CHR 0x0A])], Continue) \<and>
   main_iteration sample_answers initial_state (''&'' @ [CHR 0x0A])
     = Some (add_to_history (''&'' @ [CHR 0x0A]) initial_state, [], Continue) \<and>
   main_iteration sample_answers initial_state (''cd&'' @ [CHR 0x0A])
     = Some (add_to_history (''cd&'' @ [CHR 0x0A]) initial_state,
             [Getenv ''HOME'', Chdir (Some ''/root''), Getcwd, Setenv ''PWD'' ''/tmp''],
             Continue)"
proof -
  note la = sample_args
  let ?A = "''sleep 5&echo hi'' @ [CHR 0x0A]"
  have rA: "take 1 ?A \<noteq> [CHR 0x0A]" by simp
  have nA: "strstr ?A ''&&'' = None" by code_simp
  have pA: "CHR ''|'' \<notin> set ?A" by simp
  have aA: "CHR ''&'' \<in> set ?A" by simp
  have tA: "cmd_tokens ?A \<noteq> [] \<and> hd (cmd_tokens ?A) \<notin> set builtin_names" by code_simp
  have fA: "0 < fork1 sample_answers" by (simp add: sample_answers_def)
  have vA: "cmd_tokens ?A = [''sleep'', ''5'']" by code_simp
  have bA: "Some (add_to_history ?A initial_state,
                  [Fork (fork1 sample_answers), Printf (bg_line (fork1 sample_answers))], Continue)
      = Some (add_to_history ?A initial_state,
             [Fork 41, Printf (''[BG] Process ID: 41'' @ [CHR 0x0A])], Continue)"
    by code_simp
  note TA = background_marker_anywhere [OF rA la nA pA aA, where st = initial_state]
  have A: "main_iteration sample_answers initial_state ?A
     = Some (add_to_history ?A initial_state,
             [Fork 41, Printf (''[BG] Process ID: 41'' @ [CHR 0x0A])], Continue)"
    by (rule trans [OF TA [THEN conjunct2, THEN conjunct2, THEN conjunct2, THEN conjunct2,
          THEN mp, OF tA, THEN conjunct2, THEN mp, OF fA] bA])
  let ?B = "''&'' @ [CHR 0x0A]"
  have rB: "take 1 ?B \<noteq> [CHR 0x0A]" by simp
  have nB: "strstr ?B ''&&'' = None" by code_simp
  have pB: "CHR ''|'' \<notin> set ?B" by simp
  have aB: "CHR ''&'' \<in> set ?B" by simp
  have tB: "cmd_tokens ?B = []" by code_simp
  note TB = background_marker_anywhere [OF rB la nB pB aB, where st = initial_state]
  have B: "main_iteration sample_answers initial_state ?B
     = Some (add_to_history ?B initial_state, [], Continue)"
    by (rule TB [THEN conjunct2, THEN conjunct2, THEN conjunct1, THEN mp, OF tB])
  let ?C = "''cd&'' @ [CHR 0x0A]"
  have rC: "take 1 ?C \<noteq> [CHR 0x0A]" by simp
  have nC: "strstr ?C ''&&'' = None" by code_simp
  have pC: "CHR ''|'' \<notin> set ?C" by simp
  have aC: "CHR ''&'' \<in> set ?C" by simp
  have tC: "cmd_tokens ?C \<noteq> [] \<and> hd (cmd_tokens ?C) \<in> set builtin_names" by code_simp
  have eC: "map_option (\<lambda>(t, f). (add_to_history ?C initial_state, t, f))
              (run_builtin sample_answers (add_to_history ?C initial_state)
                 (cmd_args sample_answers ?C))
     = Some (add_to_history ?C initial_state,
             [Getenv ''HOME'', Chdir (Some ''/root''), Getcwd, Setenv ''PWD'' ''/tmp''],
             Continue)"
    by code_simp
  note TC = background_marker_anywhere [OF rC la nC pC aC, where st = initial_state]
  have C: "main_iteration sample_answers initial_state ?C
     = Some (add_to_history ?C initial_state,
             [Getenv ''HOME'', Chdir (Some ''/root''), Getcwd, Setenv ''PWD'' ''/tmp''],
             Continue)"
    by (rule trans [OF TC [THEN conjunct2, THEN conjunct2, THEN conjunct2, THEN conjunct1,
          THEN mp, OF tC] eC])
  show ?thesis by (intro conjI vA A B C)
qed

theorem builtin_before_background_witness:
  "main_iteration sample_answers initial_state (''exit &'' @ [CHR 0x0A])
     = Some (add_to_history (''exit &'' @ [CHR 0x0A]) initial_state, [], Break) \<and>
   main_iteration sample_answers initial_state (''pwd&'' @ [CHR 0x0A])
     = Some (add_to_history (''pwd&'' @ [CHR 0x0A]) initial_state,
             [Getcwd, Printf (''/tmp'' @ [CHR 0x0A])], Continue) \<and>
   main_iteration sample_answers initial_state (''cd /usr &'' @ [CHR 0x0A])
     = Some (add_to_history (''cd /usr &'' @ [CHR 0x0A]) initial_state,
             [Chdir (Some ''/usr''), Getcwd, Setenv ''PWD'' ''/tmp''], Continue) \<and>
   main_iteration sample_answers initial_state (''history&'' @ [CHR 0x0A])
     = Some (add_to_history (''history&'' @ [CHR 0x0A]) initial_state,
             [Printf (''[1] history&'' @ [CHR 0x0A, CHR 0x0A])], Continue)"
proof -
  note la = sample_args
  note ok = state_ok_initial
  let ?A = "''exit &'' @ [CHR 0x0A]"
  have rA: "take 1 ?A \<noteq> [CHR 0x0A]" by simp
  have nA: "strstr ?A ''&&'' = None" by code_simp
  have pA: "CHR ''|'' \<notin> set ?A" by simp
  have tA: "cmd_tokens ?A \<noteq> []" by code_simp
  have bA: "hd (cmd_tokens ?A) \<in> set builtin_names" by code_simp
  have hA: "hd (cmd_tokens ?A) = ''exit''" by code_simp
  from builtin_before_background [OF rA la nA pA ok tA bA]
  obtain t f where "main_iteration sample_answers initial_state ?A
      = Some (add_to_history ?A initial_state, t, f)"
    and "hd (cmd_tokens ?A) = ''exit'' \<longrightarrow> t = [] \<and> f = Break"
    by blast
  with hA have A: "main_iteration sample_answers initial_state ?A
     = Some (add_to_history ?A initial_state, [], Break)"
    by blast
  let ?B = "''pwd&'' @ [CHR 0x0A]"
  have rB: "take 1 ?B \<noteq> [CHR 0x0A]" by simp
  have nB: "strstr ?B ''&&'' = None" by code_simp
  have pB: "CHR ''|'' \<notin> set ?B" by simp
  have tB: "cmd_tokens ?B \<noteq> []" by code_simp
  have bB: "hd (cmd_tokens ?B) \<in> set builtin_names" by code_simp
  have hB: "hd (cmd_tokens ?B) = ''pwd''" by code_simp
  have eB: "Getcwd # (case getcwd_res sample_answers of Some d \<Rightarrow> [Printf (d @ [CHR 0x0A])]
                       | None \<Rightarrow> [Perror ''pwd error''])
      = [Getcwd, Printf (''/tmp'' @ [CHR 0x0A])]"
    by code_simp
  from builtin_before_background [OF rB la nB pB ok tB bB]
  obtain t f where mB: "main_iteration sample_answers initial_state ?B
      = Some (add_to_history ?B initial_state, t, f)"
    and iB: "hd (cmd_tokens ?B) = ''pwd'' \<longrightarrow> t = run_builtin_pwd (getcwd_res sample_answers) \<and> f = Continue"
    and jB: "hd (cmd_tokens ?B) = ''pwd'' \<longrightarrow>
         t = Getcwd # (case getcwd_res sample_answers of Some d \<Rightarrow> [Printf (d @ [CHR 0x0A])]
                       | None \<Rightarrow> [Perror ''pwd error''])"
    by blast
  have fB: "f = Continue" using iB hB by (rule mp [THEN conjunct2])
  have uB: "t = Getcwd # (case getcwd_res sample_answers of Some d \<Rightarrow> [Printf (d @ [CHR 0x0A])]
                       | None \<Rightarrow> [Perror ''pwd error''])"
    using jB hB by (rule mp)
  have B: "main_iteration sample_answers initial_state ?B
     = Some (add_to_history ?B initial_state, [Getcwd, Printf (''/tmp'' @ [CHR 0x0A])], Continue)"
    by (simp only: mB uB fB eB)
  let ?C = "''cd /usr &'' @ [CHR 0x0A]"
  have rC: "take 1 ?C \<noteq> [CHR 0x0A]" by simp
  have nC: "strstr ?C ''&&'' = None" by code_simp
  have pC: "CHR ''|'' \<notin> set ?C" by simp
  have tC: "cmd_tokens ?C \<noteq> []" by code_simp
  have bC: "hd (cmd_tokens ?C) \<in> set builtin_names" by code_simp
  have hC: "hd (cmd_tokens ?C) = ''cd''" by code_simp
  have eC: "(if 2 \<le> length (cmd_tokens ?C) then [Chdir (Some (cmd_tokens ?C ! 1))]
              else [Getenv ''HOME'', Chdir (env_home sample_answers)]) @
             (if chdir_rc sample_answers \<noteq> 0 then [Perror ''cd error'']
              else Getcwd # (case getcwd_res sample_answers of
                               Some d \<Rightarrow> [Setenv ''PWD'' d] | None \<Rightarrow> []))
      = [Chdir (Some ''/usr''), Getcwd, Setenv ''PWD'' ''/tmp'']"
    by code_simp
  from builtin_before_background [OF rC la nC pC ok tC bC]
  obtain t f where mC: "main_iteration sample_answers initial_state ?C
      = Some (add_to_history ?C initial_state, t, f)"
    and iC: "hd (cmd_tokens ?C) = ''cd'' \<longrightarrow> prints t = [] \<and> f = Continue"
    and jC: "hd (cmd_tokens ?C) = ''cd'' \<longrightarrow>
         t = (if 2 \<le> length (cmd_tokens ?C) then [Chdir (Some (cmd_tokens ?C ! 1))]
              else [Getenv ''HOME'', Chdir (env_home sample_answers)]) @
             (if chdir_rc sample_answers \<noteq> 0 then [Perror ''cd error'']
              else Getcwd # (case getcwd_res sample_answers of
                               Some d \<Rightarrow> [Setenv ''PWD'' d] | None \<Rightarrow> []))"
    by blast
  have fC: "f = Continue" using iC hC by (rule mp [THEN conjunct2])
  have uC: "t = (if 2 \<le> length (cmd_tokens ?C) then [Chdir (Some (cmd_tokens ?C ! 1))]
              else [Getenv ''HOME'', Chdir (env_home sample_answers)]) @
             (if chdir_rc sample_answers \<noteq> 0 then [Perror ''cd error'']
              else Getcwd # (case getcwd_res sample_answers of
                               Some d \<Rightarrow> [Setenv ''PWD'' d] | None \<Rightarrow> []))"
    using jC hC by (rule mp)
  have C: "main_iteration sample_answers initial_state ?C
     = Some (add_to_history ?C initial_state,
             [Chdir (Some ''/usr''), Getcwd, Setenv ''PWD'' ''/tmp''], Continue)"
    by (simp only: mC uC fC eC)
  let ?D = "''history&'' @ [CHR 0x0A]"
  have rD: "take 1 ?D \<noteq> [CHR 0x0A]" by simp
  have nD: "strstr ?D ''&&'' = None" by code_simp
  have pD: "CHR ''|'' \<notin> set ?D" by simp
  have tD: "cmd_tokens ?D \<noteq> []" by code_simp
  have bD: "hd (cmd_tokens ?D) \<in> set builtin_names" by code_simp
  have hD: "hd (cmd_tokens ?D) = ''history''" by code_simp
  have eD: "show_history (add_to_history ?D initial_state)
      = Some [''[1] history&'' @ [CHR 0x0A, CHR 0x0A]]"
    by code_simp
  from builtin_before_background [OF rD la nD pD ok tD bD]
  obtain t f where mD: "main_iteration sample_answers initial_state ?D
      = Some (add_to_history ?D initial_state, t, f)"
    and "hd (cmd_tokens ?D) = ''history'' \<longrightarrow>
         show_history (add_to_history ?D initial_state) = Some (prints t) \<and> f = Continue"
    and "hd (cmd_tokens ?D) = ''history'' \<longrightarrow> t = map Printf (prints t)"
    by blast
  with hD have sD: "show_history (add_to_history ?D initial_state) = Some (prints t)"
    and fD: "f = Continue" and mp: "t = map Printf (prints t)"
    by blast+
  have "Some (prints t) = Some [''[1] history&'' @ [CHR 0x0A, CHR 0x0A]]"
    by (rule trans [OF sD [symmetric] eD])
  then have pr: "prints t = [''[1] history&'' @ [CHR 0x0A, CHR 0x0A]]"
    by (rule option.inject [THEN iffD1])
  have "map Printf (prints t) = [Printf (''[1] history&'' @ [CHR 0x0A, CHR 0x0A])]"
    by (simp only: pr list.map)
  with mp have "t = [Printf (''[1] history&'' @ [CHR 0x0A, CHR 0x0A])]"
    by (rule trans)
  with mD fD have D: "main_iteration sample_answers initial_state ?D
     = Some (add_to_history ?D initial_state,
             [Printf (''[1] history&'' @ [CHR 0x0A, CHR 0x0A])], Continue)"
    by blast
  show ?thesis by (intro conjI A B C D)
qed

end
